theory Spec2Isabelle
  imports Complex_Main
begin

unbundle bit_operations_syntax

section \<open>Python values used by the three stages\<close>

text \<open>
  The repository consists of three stages of one teaching implementation:
  \<^verbatim>\<open>01_simple_kafka.py\<close> (a topic is a list of messages),
  \<^verbatim>\<open>02_partitions.py\<close> (a topic is a dict of partition lists, routed by SHA-1 of the key) and
  \<^verbatim>\<open>03_retention.py\<close> (a partition is a dict from offset to record, with a vacuum).
  The names of stage 03 are kept as they are; the names of stage 01 and stage 02 carry the
  suffix 1 and 2.

  A Python \<^verbatim>\<open>str\<close> is the list of its code points and a \<^verbatim>\<open>bytes\<close> value the list
  of its bytes; the empty \<^verbatim>\<open>str\<close> is the only falsy one. Topic names are only compared
  and used as dict keys, never encoded; they are \<^typ>\<open>string\<close>s. Python integers are
  \<^typ>\<open>int\<close>. Readings of \<^verbatim>\<open>time.time()\<close> and retention durations are finite doubles,
  which are \<^typ>\<open>real\<close> numbers; their sum is the sum the interpreter computes, rounded to a
  double, and is a parameter \<open>add\<close> of every function that adds them. Every function that
  reads the clock takes the reading as a parameter.
\<close>

datatype error = KeyError | ZeroDivisionError | UnicodeEncodeError

type_synonym str = "int list"

type_synonym bytes = "int list"

text \<open>The \<^verbatim>\<open>str\<close> with the given ASCII characters.\<close>

definition str_of :: "string \<Rightarrow> str" where
  "str_of s = map of_char s"

text \<open>
  \<^verbatim>\<open>s.encode('utf-8')\<close>: one to four bytes for each code point; a surrogate (U+D800 to
  U+DFFF) cannot be encoded and raises UnicodeEncodeError.
\<close>

definition utf8_of_code :: "int \<Rightarrow> bytes" where
  "utf8_of_code c =
     (if c < 0x80 then [c]
      else if c < 0x800 then [0xC0 + c div 0x40, 0x80 + c mod 0x40]
      else if c < 0x10000
        then [0xE0 + c div 0x1000, 0x80 + c div 0x40 mod 0x40, 0x80 + c mod 0x40]
      else [0xF0 + c div 0x40000, 0x80 + c div 0x1000 mod 0x40, 0x80 + c div 0x40 mod 0x40,
            0x80 + c mod 0x40])"

definition encode_utf8 :: "str \<Rightarrow> error + bytes" where
  "encode_utf8 s =
     (if \<exists>c \<in> set s. 0xD800 \<le> c \<and> c \<le> 0xDFFF then Inl UnicodeEncodeError
      else Inr (concat (map utf8_of_code s)))"

text \<open>\<^verbatim>\<open>key or message\<close> with \<^verbatim>\<open>key=None\<close> as default: a key that is
  \<^verbatim>\<open>None\<close> or empty is falsy, and the message is taken instead.\<close>

fun key_or :: "str option \<Rightarrow> str \<Rightarrow> str" where
  "key_or None message = message"
| "key_or (Some k) message = (if k = [] then message else k)"

subsection \<open>An insertion-ordered dict\<close>

text \<open>
  A Python dict keeps its items in insertion order, and \<^verbatim>\<open>list(d)\<close> lists the keys in
  that order. It is represented by the list of its items. \<^verbatim>\<open>d[k] = v\<close> replaces the value
  in place when the key is present and appends a new item otherwise; \<^verbatim>\<open>del d[k]\<close>
  removes the item; \<^verbatim>\<open>d[k]\<close> is \<open>map_of d k\<close>, with \<open>None\<close> for the KeyError.
\<close>

type_synonym ('k, 'v) dict = "('k \<times> 'v) list"

fun dict_set :: "'k \<Rightarrow> 'v \<Rightarrow> ('k, 'v) dict \<Rightarrow> ('k, 'v) dict" where
  "dict_set k v [] = [(k, v)]"
| "dict_set k v ((k', v') # d) = (if k' = k then (k, v) # d else (k', v') # dict_set k v d)"

definition dict_del :: "'k \<Rightarrow> ('k, 'v) dict \<Rightarrow> ('k, 'v) dict" where
  "dict_del k d = filter (\<lambda>kv. fst kv \<noteq> k) d"

text \<open>\<^verbatim>\<open>list(d) or [-1]\<close>: the keys, or the one-element list with the sentinel when the dict
  is empty.\<close>

definition keys_or :: "(int, 'v) dict \<Rightarrow> int list" where
  "keys_or d = (if map fst d = [] then [-1] else map fst d)"

text \<open>Python list indexing \<^verbatim>\<open>xs[i]\<close>: a negative index counts from the end, and an index
  out of range raises IndexError (\<open>None\<close> here).\<close>

definition list_index :: "'a list \<Rightarrow> int \<Rightarrow> 'a option" where
  "list_index xs i =
     (let n = int (length xs); j = (if i < 0 then n + i else i)
      in if 0 \<le> j \<and> j < n then Some (xs ! nat j) else None)"

subsection \<open>hashlib.sha1\<close>

text \<open>
  \<^verbatim>\<open>int(hashlib.sha1(key).hexdigest(), 16)\<close> is the SHA-1 digest (FIPS 180-4) of the bytes,
  read as a 160-bit big-endian number. 32-bit words are integers with \<open>mod 2 ^ 32\<close> written out.
  The message is padded with the byte 0x80, zero bytes up to 56 modulo 64 and the bit length
  as 8 big-endian bytes; each 64-byte block is 16 big-endian words; the message schedule is
  kept as a window of 16 words whose head is the word of the current round.
\<close>

definition rotl :: "nat \<Rightarrow> int \<Rightarrow> int" where
  "rotl n w = (push_bit n w mod 2 ^ 32) OR (drop_bit (32 - n) w)"

fun be_bytes :: "nat \<Rightarrow> int \<Rightarrow> int list" where
  "be_bytes 0 x = []"
| "be_bytes (Suc n) x = be_bytes n (x div 256) @ [x mod 256]"

definition sha1_pad :: "int list \<Rightarrow> int list" where
  "sha1_pad m = m @ [0x80] @ replicate ((119 - length m mod 64) mod 64) 0
     @ be_bytes 8 (8 * int (length m))"

definition be_word :: "int list \<Rightarrow> int" where
  "be_word bs = foldl (\<lambda>a b. a * 256 + b) 0 bs"

definition sha1_blocks :: "int list \<Rightarrow> int list list" where
  "sha1_blocks bs =
     map (\<lambda>i. map (\<lambda>j. be_word (take 4 (drop (64 * i + 4 * j) bs))) [0..<16])
       [0..<length bs div 64]"

type_synonym sha1_state = "int \<times> int \<times> int \<times> int \<times> int"

definition sha1_f :: "nat \<Rightarrow> int \<Rightarrow> int \<Rightarrow> int \<Rightarrow> int" where
  "sha1_f t b c d =
     (if t < 20 then (b AND c) OR ((b XOR 0xFFFFFFFF) AND d)
      else if t < 40 then b XOR c XOR d
      else if t < 60 then (b AND c) OR (b AND d) OR (c AND d)
      else b XOR c XOR d)"

definition sha1_k :: "nat \<Rightarrow> int" where
  "sha1_k t =
     (if t < 20 then 0x5A827999 else if t < 40 then 0x6ED9EBA1
      else if t < 60 then 0x8F1BBCDC else 0xCA62C1D6)"

definition sha1_round :: "nat \<Rightarrow> int \<Rightarrow> sha1_state \<Rightarrow> sha1_state" where
  "sha1_round t wt s = (case s of (a, b, c, d, e) \<Rightarrow>
     ((rotl 5 a + sha1_f t b c d + e + sha1_k t + wt) mod 2 ^ 32, a, rotl 30 b, c, d))"

definition sched_step :: "int list \<Rightarrow> int list" where
  "sched_step w = tl w @ [rotl 1 (w ! 13 XOR w ! 8 XOR w ! 2 XOR w ! 0)]"

fun sha1_loop :: "nat \<Rightarrow> nat \<Rightarrow> int list \<Rightarrow> sha1_state \<Rightarrow> sha1_state" where
  "sha1_loop 0 t w s = s"
| "sha1_loop (Suc n) t w s = sha1_loop n (Suc t) (sched_step w) (sha1_round t (hd w) s)"

definition add_state :: "sha1_state \<Rightarrow> sha1_state \<Rightarrow> sha1_state" where
  "add_state h s = (case (h, s) of ((h0, h1, h2, h3, h4), (a, b, c, d, e)) \<Rightarrow>
     ((h0 + a) mod 2 ^ 32, (h1 + b) mod 2 ^ 32, (h2 + c) mod 2 ^ 32, (h3 + d) mod 2 ^ 32,
      (h4 + e) mod 2 ^ 32))"

definition sha1_compress :: "int list \<Rightarrow> sha1_state \<Rightarrow> sha1_state" where
  "sha1_compress blk h = add_state h (sha1_loop 80 0 blk h)"

definition sha1 :: "int list \<Rightarrow> sha1_state" where
  "sha1 m = fold sha1_compress (sha1_blocks (sha1_pad m))
     (0x67452301, 0xEFCDAB89, 0x98BADCFE, 0x10325476, 0xC3D2E1F0)"

definition sha1_int :: "bytes \<Rightarrow> int" where
  "sha1_int s = (case sha1 s of (a, b, c, d, e) \<Rightarrow>
     foldl (\<lambda>n w. n * 2 ^ 32 + w) 0 [a, b, c, d, e])"

section \<open>Stage 03: partitions with retention (03\_retention.py)\<close>

record Record =
  timestamp :: real
  key :: bytes
  message :: str

record Topic =
  num_partitions :: int
  retention_seconds :: real
  partitions :: "int \<rightharpoonup> (int, Record) dict"

record Broker =
  topics :: "string \<rightharpoonup> Topic"

text \<open>\<^verbatim>\<open>Topic.__init__\<close>: \<^verbatim>\<open>{i: {} for i in range(num_partitions)}\<close>.\<close>

definition Topic_init :: "int \<Rightarrow> real \<Rightarrow> Topic" where
  "Topic_init n r =
     \<lparr>num_partitions = n, retention_seconds = r,
      partitions = (\<lambda>i. if 0 \<le> i \<and> i < n then Some [] else None)\<rparr>"

definition Broker_init :: Broker where
  "Broker_init = \<lparr>topics = Map.empty\<rparr>"

text \<open>
  \<^verbatim>\<open>Topic.vacuum\<close>. The inner loop runs over a snapshot \<^verbatim>\<open>list(records.items())\<close> and
  deletes from the dict itself; a deleted key is taken from the snapshot, so the
  \<^verbatim>\<open>del\<close> cannot raise. The progress lines that vacuum prints are not modelled.
  \<open>add\<close> is the addition of \<^verbatim>\<open>rec.timestamp + self.retention_seconds\<close>, the sum rounded
  to a double; nothing is assumed of it here.
\<close>

fun vacuum_records :: "(real \<Rightarrow> real \<Rightarrow> real) \<Rightarrow> real \<Rightarrow> real \<Rightarrow> (int \<times> Record) list
    \<Rightarrow> (int, Record) dict \<Rightarrow> (int, Record) dict" where
  "vacuum_records add retention now [] records = records"
| "vacuum_records add retention now ((offset, rec) # items) records =
     vacuum_records add retention now items
       (if add (timestamp rec) retention < now then dict_del offset records else records)"

definition Topic_vacuum :: "(real \<Rightarrow> real \<Rightarrow> real) \<Rightarrow> Topic \<Rightarrow> real \<Rightarrow> Topic" where
  "Topic_vacuum add t now =
     t\<lparr>partitions := (\<lambda>p. case partitions t p of None \<Rightarrow> None
         | Some records \<Rightarrow>
             Some (vacuum_records add (retention_seconds t) now records records))\<rparr>"

text \<open>\<^verbatim>\<open>Broker.vacuum\<close> calls \<^verbatim>\<open>Topic.vacuum\<close> on every topic, and each of these calls
  reads the clock itself: \<open>nows name\<close> is the reading taken for the topic \<open>name\<close>.\<close>

definition vacuum :: "(real \<Rightarrow> real \<Rightarrow> real) \<Rightarrow> Broker \<Rightarrow> (string \<Rightarrow> real) \<Rightarrow> Broker" where
  "vacuum add b nows =
     b\<lparr>topics := (\<lambda>name. case topics b name of None \<Rightarrow> None
         | Some topic \<Rightarrow> Some (Topic_vacuum add topic (nows name)))\<rparr>"

text \<open>\<^verbatim>\<open>Broker.create_topic\<close> assigns into the dict of topics; nothing in it can raise.\<close>

definition create_topic :: "Broker \<Rightarrow> string \<Rightarrow> int \<Rightarrow> real \<Rightarrow> Broker" where
  "create_topic b name n r = b\<lparr>topics := (topics b)(name \<mapsto> Topic_init n r)\<rparr>"

definition get_first_offset :: "Broker \<Rightarrow> string \<Rightarrow> int \<Rightarrow> error + int" where
  "get_first_offset b topic_name partition_idx =
     (case topics b topic_name of None \<Rightarrow> Inl KeyError
      | Some topic \<Rightarrow>
          (case partitions topic partition_idx of None \<Rightarrow> Inl KeyError
           | Some records \<Rightarrow> Inr (hd (keys_or records))))"

definition get_last_offset :: "Broker \<Rightarrow> string \<Rightarrow> int \<Rightarrow> error + int" where
  "get_last_offset b topic_name partition_idx =
     (case topics b topic_name of None \<Rightarrow> Inl KeyError
      | Some topic \<Rightarrow>
          (case partitions topic partition_idx of None \<Rightarrow> Inl KeyError
           | Some records \<Rightarrow> Inr (last (keys_or records))))"

text \<open>
  \<^verbatim>\<open>Broker.send_message\<close>, in the order of the source: the topic lookup (KeyError), the
  routing key and its encoding (UnicodeEncodeError when it holds a surrogate), the partition
  (ZeroDivisionError when the topic has 0 partitions), the record
  with the clock reading \<open>now\<close>, the offset from \<^verbatim>\<open>get_last_offset\<close> (KeyError when the
  partition is not in the dict) and the store. The method has no \<^verbatim>\<open>return\<close>, so the call
  evaluates to \<^verbatim>\<open>None\<close>: the first component of the result, typed so that a pair
  (partition, offset) could be told apart from it.
\<close>

definition send_message :: "Broker \<Rightarrow> real \<Rightarrow> string \<Rightarrow> str \<Rightarrow> str option
    \<Rightarrow> error + ((int \<times> int) option \<times> Broker)" where
  "send_message b now topic_name msg k =
     (case topics b topic_name of None \<Rightarrow> Inl KeyError
      | Some topic \<Rightarrow>
          (case encode_utf8 (key_or k msg) of Inl e \<Rightarrow> Inl e
           | Inr key_bytes \<Rightarrow>
               if num_partitions topic = 0 then Inl ZeroDivisionError
               else
                 let partition_idx = sha1_int key_bytes mod num_partitions topic;
                     record = \<lparr>timestamp = now, key = key_bytes, message = msg\<rparr>
                 in (case get_last_offset b topic_name partition_idx of Inl e \<Rightarrow> Inl e
                     | Inr last_offset \<Rightarrow>
                         (case partitions topic partition_idx of None \<Rightarrow> Inl KeyError
                          | Some records \<Rightarrow>
                              Inr (None,
                                b\<lparr>topics := (topics b)(topic_name \<mapsto>
                                  topic\<lparr>partitions := (partitions topic)(partition_idx \<mapsto>
                                    dict_set (last_offset + 1) record records)\<rparr>)\<rparr>)))))"

text \<open>\<^verbatim>\<open>Broker.read_message\<close>: the topic lookup is outside the \<^verbatim>\<open>try\<close>; the lookups of the
  partition and of the offset are inside, and every exception there gives \<^verbatim>\<open>None\<close>.\<close>

definition read_message :: "Broker \<Rightarrow> string \<Rightarrow> int \<Rightarrow> int \<Rightarrow> error + str option" where
  "read_message b topic_name partition_idx offset =
     (case topics b topic_name of None \<Rightarrow> Inl KeyError
      | Some topic \<Rightarrow>
          (case partitions topic partition_idx of None \<Rightarrow> Inr None
           | Some records \<Rightarrow>
               (case map_of records offset of None \<Rightarrow> Inr None
                | Some rec \<Rightarrow> Inr (Some (message rec)))))"

text \<open>
  \<^verbatim>\<open>Consumer\<close>: the reference to the broker is passed to each call instead. The two lines
  that \<^verbatim>\<open>get_next_message\<close> prints when it detects missed messages are the output.
\<close>

record Consumer =
  topic :: string
  partition_idx :: int
  offset :: int

datatype printed = Missed int | Skipping int

definition get_next_message :: "Broker \<Rightarrow> Consumer
    \<Rightarrow> error + (str option \<times> Consumer \<times> printed list)" where
  "get_next_message b c =
     (case get_first_offset b (topic c) (partition_idx c) of Inl e \<Rightarrow> Inl e
      | Inr oldest_available_offset \<Rightarrow>
          let behind = oldest_available_offset > offset c;
              out = (if behind
                     then [Missed (partition_idx c), Skipping oldest_available_offset] else []);
              c1 = (if behind then c\<lparr>offset := oldest_available_offset\<rparr> else c)
          in (case get_last_offset b (topic c1) (partition_idx c1) of Inl e \<Rightarrow> Inl e
              | Inr newest_available_offset \<Rightarrow>
                  if offset c1 \<le> newest_available_offset
                  then (case read_message b (topic c1) (partition_idx c1) (offset c1) of
                          Inl e \<Rightarrow> Inl e
                        | Inr msg \<Rightarrow> Inr (msg, c1\<lparr>offset := offset c1 + 1\<rparr>, out))
                  else Inr (None, c1, out)))"

text \<open>\<open>n\<close> polls in a row against the same broker state.\<close>

fun polls :: "nat \<Rightarrow> Broker \<Rightarrow> Consumer
    \<Rightarrow> error + (str option list \<times> Consumer \<times> printed list)" where
  "polls 0 b c = Inr ([], c, [])"
| "polls (Suc n) b c =
     (case get_next_message b c of Inl e \<Rightarrow> Inl e
      | Inr (msg, c', out) \<Rightarrow>
          (case polls n b c' of Inl e \<Rightarrow> Inl e
           | Inr (msgs, c'', outs) \<Rightarrow> Inr (msg # msgs, c'', out @ outs)))"

subsection \<open>The states a broker can be in\<close>

text \<open>
  A broker starts empty and changes by \<^verbatim>\<open>create_topic\<close>, \<^verbatim>\<open>send_message\<close> and
  \<^verbatim>\<open>vacuum\<close>. A call that raises has not changed the broker (every raise of
  \<^verbatim>\<open>send_message\<close> comes before its store).
\<close>

inductive reachable :: "Broker \<Rightarrow> bool" where
  init: "reachable Broker_init"
| create: "reachable b \<Longrightarrow> reachable (create_topic b name n r)"
| send: "reachable b \<Longrightarrow> send_message b now name msg k = Inr (ret, b') \<Longrightarrow> reachable b'"
| vacuumed: "reachable b \<Longrightarrow> reachable (vacuum add b nows)"

text \<open>
  The same with a clock whose readings never decrease: \<open>reachable_at T b\<close> when \<open>b\<close> is
  reached by calls whose clock readings are non-decreasing in the order of the calls and
  bounded by \<open>T\<close>. The readings that one \<^verbatim>\<open>Broker.vacuum\<close> takes for its topics lie
  between the reading before the call and the one after it. The addition is monotone in the
  timestamp, as the exact sum and the sum rounded to the nearest double are.
\<close>

definition monotone_add :: "(real \<Rightarrow> real \<Rightarrow> real) \<Rightarrow> bool" where
  "monotone_add add \<longleftrightarrow> (\<forall>x y r. x \<le> y \<longrightarrow> add x r \<le> add y r)"

inductive reachable_at :: "real \<Rightarrow> Broker \<Rightarrow> bool" where
  init_at: "reachable_at T Broker_init"
| create_at: "reachable_at T b \<Longrightarrow> reachable_at T (create_topic b name n r)"
| send_at: "reachable_at T b \<Longrightarrow> T \<le> now \<Longrightarrow> now \<le> T'
    \<Longrightarrow> send_message b now name msg k = Inr (ret, b') \<Longrightarrow> reachable_at T' b'"
| vacuumed_at: "reachable_at T b \<Longrightarrow> \<forall>name \<in> dom (topics b). T \<le> nows name \<and> nows name \<le> T'
    \<Longrightarrow> T \<le> T' \<Longrightarrow> monotone_add add \<Longrightarrow> reachable_at T' (vacuum add b nows)"

text \<open>The broker after a call of \<^verbatim>\<open>send_message\<close>; a call that raises leaves it as it was.\<close>

definition after_send :: "Broker \<Rightarrow> real \<Rightarrow> string \<Rightarrow> str \<Rightarrow> str option \<Rightarrow> Broker" where
  "after_send b now name msg k =
     (case send_message b now name msg k of Inl e \<Rightarrow> b | Inr (ret, b') \<Rightarrow> b')"

text \<open>The keys of a partition are distinct and increase in insertion order; a topic holds
  exactly the partitions \<open>0 .. num_partitions - 1\<close>.\<close>

definition topic_ok :: "Topic \<Rightarrow> bool" where
  "topic_ok t \<longleftrightarrow>
     (\<forall>p. (partitions t p \<noteq> None) = (0 \<le> p \<and> p < num_partitions t)) \<and>
     (\<forall>p records. partitions t p = Some records \<longrightarrow> sorted_wrt (<) (map fst records))"

definition broker_ok :: "Broker \<Rightarrow> bool" where
  "broker_ok b \<longleftrightarrow> (\<forall>name t. topics b name = Some t \<longrightarrow> topic_ok t)"

text \<open>A list of offsets without a gap.\<close>

fun contiguous :: "int list \<Rightarrow> bool" where
  "contiguous [] = True"
| "contiguous [k] = True"
| "contiguous (k # k' # ks) = (k' = k + 1 \<and> contiguous (k' # ks))"

definition records_at :: "real \<Rightarrow> (int, Record) dict \<Rightarrow> bool" where
  "records_at T records \<longleftrightarrow>
     contiguous (map fst records) \<and> sorted (map (\<lambda>kv. timestamp (snd kv)) records) \<and>
     (\<forall>kv \<in> set records. timestamp (snd kv) \<le> T)"

definition broker_at :: "real \<Rightarrow> Broker \<Rightarrow> bool" where
  "broker_at T b \<longleftrightarrow>
     (\<forall>name t p records. topics b name = Some t \<longrightarrow> partitions t p = Some records
        \<longrightarrow> records_at T records)"

subsection \<open>A scenario: one partition, retention 10\<close>

text \<open>
  Topic \<^verbatim>\<open>tax\<close> with one partition and a retention of 10 seconds; two messages sent at
  time 0 and 5; a vacuum at time 12 (the first record has expired, the second has not); a
  vacuum at time 20 (both have expired); a third message sent at time 21. The sums of these
  timestamps and the retention are whole numbers, which the rounded addition leaves as they
  are.
\<close>

definition tax0 :: Broker where
  "tax0 = create_topic Broker_init ''tax'' 1 10"

definition tax1 :: Broker where
  "tax1 = after_send tax0 0 ''tax'' (str_of ''m0'') None"

definition tax2 :: Broker where
  "tax2 = after_send tax1 5 ''tax'' (str_of ''m1'') None"

definition tax3 :: Broker where
  "tax3 = vacuum (+) tax2 (\<lambda>name. 12)"

definition tax4 :: Broker where
  "tax4 = vacuum (+) tax2 (\<lambda>name. 20)"

definition tax5 :: Broker where
  "tax5 = after_send tax4 21 ''tax'' (str_of ''m2'') None"

text \<open>Topic \<^verbatim>\<open>sales\<close> with two partitions.\<close>

definition sales0 :: Broker where
  "sales0 = create_topic Broker_init ''sales'' 2 5"

section \<open>Stage 01: a topic is a list (01\_simple\_kafka.py)\<close>

record Broker1 =
  topics1 :: "string \<rightharpoonup> str list"

definition Broker1_init :: Broker1 where
  "Broker1_init = \<lparr>topics1 = Map.empty\<rparr>"

definition create_topic1 :: "Broker1 \<Rightarrow> string \<Rightarrow> Broker1" where
  "create_topic1 b topic_name = b\<lparr>topics1 := (topics1 b)(topic_name \<mapsto> [])\<rparr>"

definition send_message1 :: "Broker1 \<Rightarrow> string \<Rightarrow> str \<Rightarrow> error + Broker1" where
  "send_message1 b topic_name msg =
     (case topics1 b topic_name of None \<Rightarrow> Inl KeyError
      | Some msgs \<Rightarrow> Inr (b\<lparr>topics1 := (topics1 b)(topic_name \<mapsto> msgs @ [msg])\<rparr>))"

text \<open>In stage 01 both lookups of \<^verbatim>\<open>read_message\<close> are inside the \<^verbatim>\<open>try\<close>.\<close>

definition read_message1 :: "Broker1 \<Rightarrow> string \<Rightarrow> int \<Rightarrow> str option" where
  "read_message1 b topic_name off =
     (case topics1 b topic_name of None \<Rightarrow> None | Some msgs \<Rightarrow> list_index msgs off)"

definition get_last_offset1 :: "Broker1 \<Rightarrow> string \<Rightarrow> error + int" where
  "get_last_offset1 b topic_name =
     (case topics1 b topic_name of None \<Rightarrow> Inl KeyError
      | Some msgs \<Rightarrow> Inr (int (length msgs)))"

record Consumer1 =
  topic_name1 :: string
  offset1 :: int

definition get_next_message1 :: "Broker1 \<Rightarrow> Consumer1 \<Rightarrow> error + (str option \<times> Consumer1)" where
  "get_next_message1 b c =
     (case get_last_offset1 b (topic_name1 c) of Inl e \<Rightarrow> Inl e
      | Inr newest_available_offset \<Rightarrow>
          if offset1 c \<le> newest_available_offset
          then Inr (read_message1 b (topic_name1 c) (offset1 c), c\<lparr>offset1 := offset1 c + 1\<rparr>)
          else Inr (None, c))"

text \<open>
  A sequence of calls on one broker by its producers and one consumer. The trace lists, for
  every poll, the cursor the poll started from (the only offset it can read) and the message
  it returned. A call that raises ends the run.
\<close>

datatype call1 = Create1 string | Send1 string str | Poll1

fun run1 :: "call1 list \<Rightarrow> Broker1 \<Rightarrow> Consumer1
    \<Rightarrow> error + (Broker1 \<times> Consumer1 \<times> (int \<times> str option) list)" where
  "run1 [] b c = Inr (b, c, [])"
| "run1 (Create1 name # calls) b c = run1 calls (create_topic1 b name) c"
| "run1 (Send1 name msg # calls) b c =
     (case send_message1 b name msg of Inl e \<Rightarrow> Inl e | Inr b' \<Rightarrow> run1 calls b' c)"
| "run1 (Poll1 # calls) b c =
     (case get_next_message1 b c of Inl e \<Rightarrow> Inl e
      | Inr (msg, c') \<Rightarrow>
          (case run1 calls b c' of Inl e \<Rightarrow> Inl e
           | Inr (b'', c'', trace) \<Rightarrow> Inr (b'', c'', (offset1 c, msg) # trace)))"

section \<open>Stage 02: partitions as lists (02\_partitions.py)\<close>

record Topic2 =
  num_partitions2 :: int
  partitions2 :: "int \<rightharpoonup> str list"

record Broker2 =
  topics2 :: "string \<rightharpoonup> Topic2"

definition Broker2_init :: Broker2 where
  "Broker2_init = \<lparr>topics2 = Map.empty\<rparr>"

definition create_topic2 :: "Broker2 \<Rightarrow> string \<Rightarrow> int \<Rightarrow> Broker2" where
  "create_topic2 b topic_name n =
     b\<lparr>topics2 := (topics2 b)(topic_name \<mapsto>
       \<lparr>num_partitions2 = n,
        partitions2 = (\<lambda>i. if 0 \<le> i \<and> i < n then Some [] else None)\<rparr>)\<rparr>"

definition send_message2 :: "Broker2 \<Rightarrow> string \<Rightarrow> str \<Rightarrow> str option \<Rightarrow> error + Broker2" where
  "send_message2 b topic_name msg k =
     (case topics2 b topic_name of None \<Rightarrow> Inl KeyError
      | Some t \<Rightarrow>
          (case encode_utf8 (key_or k msg) of Inl e \<Rightarrow> Inl e
           | Inr key_bytes \<Rightarrow>
               if num_partitions2 t = 0 then Inl ZeroDivisionError
               else
                 let p = sha1_int key_bytes mod num_partitions2 t
                 in (case partitions2 t p of None \<Rightarrow> Inl KeyError
                     | Some msgs \<Rightarrow>
                         Inr (b\<lparr>topics2 := (topics2 b)(topic_name \<mapsto>
                           t\<lparr>partitions2 := (partitions2 t)(p \<mapsto> msgs @ [msg])\<rparr>)\<rparr>))))"

definition read_message2 :: "Broker2 \<Rightarrow> string \<Rightarrow> int \<Rightarrow> int \<Rightarrow> error + str option" where
  "read_message2 b topic_name p off =
     (case topics2 b topic_name of None \<Rightarrow> Inl KeyError
      | Some t \<Rightarrow>
          (case partitions2 t p of None \<Rightarrow> Inr None
           | Some msgs \<Rightarrow> Inr (list_index msgs off)))"

definition get_last_offset2 :: "Broker2 \<Rightarrow> string \<Rightarrow> int \<Rightarrow> error + int" where
  "get_last_offset2 b topic_name p =
     (case topics2 b topic_name of None \<Rightarrow> Inl KeyError
      | Some t \<Rightarrow>
          (case partitions2 t p of None \<Rightarrow> Inl KeyError
           | Some msgs \<Rightarrow> Inr (int (length msgs))))"

record Consumer2 =
  topic2 :: string
  partition_idx2 :: int
  offset2 :: int

definition get_next_message2 :: "Broker2 \<Rightarrow> Consumer2 \<Rightarrow> error + (str option \<times> Consumer2)" where
  "get_next_message2 b c =
     (case get_last_offset2 b (topic2 c) (partition_idx2 c) of Inl e \<Rightarrow> Inl e
      | Inr newest_available_offset \<Rightarrow>
          if offset2 c \<le> newest_available_offset
          then (case read_message2 b (topic2 c) (partition_idx2 c) (offset2 c) of
                  Inl e \<Rightarrow> Inl e
                | Inr msg \<Rightarrow> Inr (msg, c\<lparr>offset2 := offset2 c + 1\<rparr>))
          else Inr (None, c))"

text \<open>A sequence of calls on one stage 02 broker by its producers and one consumer, with the
  trace of the polls as in stage 01.\<close>

datatype call2 = Create2 string int | Send2 string str "str option" | Poll2

fun run2 :: "call2 list \<Rightarrow> Broker2 \<Rightarrow> Consumer2
    \<Rightarrow> error + (Broker2 \<times> Consumer2 \<times> (int \<times> str option) list)" where
  "run2 [] b c = Inr (b, c, [])"
| "run2 (Create2 name n # calls) b c = run2 calls (create_topic2 b name n) c"
| "run2 (Send2 name msg k # calls) b c =
     (case send_message2 b name msg k of Inl e \<Rightarrow> Inl e | Inr b' \<Rightarrow> run2 calls b' c)"
| "run2 (Poll2 # calls) b c =
     (case get_next_message2 b c of Inl e \<Rightarrow> Inl e
      | Inr (msg, c') \<Rightarrow>
          (case run2 calls b c' of Inl e \<Rightarrow> Inl e
           | Inr (b'', c'', trace) \<Rightarrow> Inr (b'', c'', (offset2 c, msg) # trace)))"

section \<open>Lemmas on the dict operations\<close>

lemma dict_set_fresh: "k \<notin> fst ` set d \<Longrightarrow> dict_set k v d = d @ [(k, v)]"
  by (induction d) auto


lemma vacuum_records_filter:
  "vacuum_records add R now items records =
     filter (\<lambda>kv. \<not> (\<exists>r. (fst kv, r) \<in> set items \<and> add (timestamp r) R < now)) records"
proof (induction items arbitrary: records)
  case Nil
  then show ?case by simp
next
  case (Cons item items)
  obtain off r where item: "item = (off, r)" by (cases item)
  show ?case
    unfolding item
    by (auto simp: Cons.IH dict_del_def intro!: filter_cong)
qed

lemma vacuum_records_self:
  assumes "distinct (map fst records)"
  shows "vacuum_records add R now records records =
     filter (\<lambda>kv. \<not> add (timestamp (snd kv)) R < now) records"
proof -
  have "\<And>kv. kv \<in> set records \<Longrightarrow>
      (\<exists>r. (fst kv, r) \<in> set records \<and> add (timestamp r) R < now) = (add (timestamp (snd kv)) R < now)"
    using assms by (metis eq_key_imp_eq_value prod.collapse)
  then show ?thesis
    unfolding vacuum_records_filter by (auto intro!: filter_cong)
qed

lemma sorted_keys_distinct: "sorted_wrt (<) (ks :: int list) \<Longrightarrow> distinct ks"
  by (simp add: strict_sorted_iff)

lemma sorted_keys_le_last: "sorted_wrt (<) (ks :: int list) \<Longrightarrow> k \<in> set ks \<Longrightarrow> k \<le> last ks"
proof (induction ks)
  case Nil
  then show ?case by simp
next
  case (Cons a ks)
  show ?case
  proof (cases "ks = []")
    case True
    with Cons.prems show ?thesis by simp
  next
    case False
    then have "last ks \<in> set ks" by simp
    with Cons.prems have lt: "a < last ks" by auto
    show ?thesis
    proof (cases "k = a")
      case True
      with False lt show ?thesis by simp
    next
      case neq: False
      with Cons.prems have "k \<in> set ks" and "sorted_wrt (<) ks" by auto
      then have "k \<le> last ks" using Cons.IH by simp
      with False show ?thesis by simp
    qed
  qed
qed

lemma sorted_keys_hd_le: "sorted_wrt (<) (ks :: int list) \<Longrightarrow> k \<in> set ks \<Longrightarrow> hd ks \<le> k"
  by (induction ks) (auto split: if_splits)

lemma sorted_keys_snoc:
  "sorted_wrt (<) (ks :: int list) \<Longrightarrow> sorted_wrt (<) (ks @ [last (if ks = [] then [-1] else ks) + 1])"
  by (auto simp: sorted_wrt_append dest: sorted_keys_le_last)

lemma next_offset_fresh:
  "sorted_wrt (<) (map fst d) \<Longrightarrow> last (keys_or d) + 1 \<notin> fst ` set d"
  using sorted_keys_le_last [of "map fst d" "last (map fst d) + 1"]
  by (auto simp: keys_or_def)

section \<open>The invariant of reachable brokers\<close>

lemma sorted_keys_filter:
  "sorted_wrt (<) (map fst xs) \<Longrightarrow> sorted_wrt (<) (map fst (filter P xs))"
  by (induction xs) auto

lemma topic_ok_init: "topic_ok (Topic_init n r)"
  by (simp add: topic_ok_def Topic_init_def)

lemma topic_ok_dom: "topic_ok t \<Longrightarrow> (partitions t p = None) = (\<not> (0 \<le> p \<and> p < num_partitions t))"
  unfolding topic_ok_def by (metis option.distinct(1) option.exhaust)

lemma topic_ok_sorted: "topic_ok t \<Longrightarrow> partitions t p = Some records \<Longrightarrow> sorted_wrt (<) (map fst records)"
  unfolding topic_ok_def by blast

lemma topic_ok_vacuum:
  assumes "topic_ok t"
  shows "topic_ok (Topic_vacuum add t now)"
  unfolding topic_ok_def
proof (intro conjI allI impI)
  fix p
  show "(partitions (Topic_vacuum add t now) p \<noteq> None)
      = (0 \<le> p \<and> p < num_partitions (Topic_vacuum add t now))"
    using topic_ok_dom [OF assms, of p]
    by (cases "partitions t p") (auto simp: Topic_vacuum_def)
next
  fix p records
  assume "partitions (Topic_vacuum add t now) p = Some records"
  then obtain old where "partitions t p = Some old"
    and "records = vacuum_records add (retention_seconds t) now old old"
    by (auto simp: Topic_vacuum_def split: option.splits)
  with topic_ok_sorted [OF assms, of p old]
  show "sorted_wrt (<) (map fst records)"
    by (simp add: vacuum_records_filter sorted_keys_filter)
qed

lemma send_message_Inr:
  assumes "send_message b now name msg k = Inr (ret, b')"
  obtains t key_bytes records where "topics b name = Some t"
    and "encode_utf8 (key_or k msg) = Inr key_bytes"
    and "num_partitions t \<noteq> 0"
    and "partitions t (sha1_int key_bytes mod num_partitions t) = Some records"
    and "ret = None"
    and "b' = b\<lparr>topics := (topics b)(name \<mapsto>
           t\<lparr>partitions := (partitions t)(sha1_int key_bytes mod num_partitions t \<mapsto>
             dict_set (last (keys_or records) + 1)
               \<lparr>timestamp = now, key = key_bytes, message = msg\<rparr> records)\<rparr>)\<rparr>"
  using assms
  by (auto simp: send_message_def get_last_offset_def Let_def
      split: option.splits if_splits sum.splits)

lemma topic_ok_store:
  assumes "topic_ok t" and "partitions t p = Some records"
  shows "topic_ok (t\<lparr>partitions := (partitions t)(p \<mapsto>
           dict_set (last (keys_or records) + 1) rec records)\<rparr>)"
proof -
  from assms have srt: "sorted_wrt (<) (map fst records)"
    by (auto simp: topic_ok_def)
  have "dict_set (last (keys_or records) + 1) rec records
          = records @ [(last (keys_or records) + 1, rec)]"
    by (rule dict_set_fresh) (rule next_offset_fresh [OF srt])
  moreover have "sorted_wrt (<) (map fst (records @ [(last (keys_or records) + 1, rec)]))"
    using sorted_keys_snoc [OF srt] by (simp add: keys_or_def)
  ultimately show ?thesis
    using assms by (auto simp: topic_ok_def)
qed

lemma reachable_ok: "reachable b \<Longrightarrow> broker_ok b"
proof (induction rule: reachable.induct)
  case init
  show ?case by (simp add: broker_ok_def Broker_init_def)
next
  case (create b name n r)
  then show ?case by (auto simp: broker_ok_def create_topic_def topic_ok_init)
next
  case (send b now name msg k ret b')
  from send.hyps(2) obtain t key_bytes records where t: "topics b name = Some t"
    and p: "partitions t (sha1_int key_bytes mod num_partitions t) = Some records"
    and b': "b' = b\<lparr>topics := (topics b)(name \<mapsto>
           t\<lparr>partitions := (partitions t)(sha1_int key_bytes mod num_partitions t \<mapsto>
             dict_set (last (keys_or records) + 1)
               \<lparr>timestamp = now, key = key_bytes, message = msg\<rparr> records)\<rparr>)\<rparr>"
    by (rule send_message_Inr)
  from send.IH t have "topic_ok t" by (simp add: broker_ok_def)
  from topic_ok_store [OF this p] send.IH show ?case
    unfolding b' by (auto simp: broker_ok_def)
next
  case (vacuumed b add nows)
  then show ?case
    by (auto simp: broker_ok_def vacuum_def topic_ok_vacuum split: option.splits)
qed

lemma encode_m0: "encode_utf8 (str_of ''m0'') = Inr [109, 48]"
  by (simp add: encode_utf8_def utf8_of_code_def str_of_def)

lemma encode_m1: "encode_utf8 (str_of ''m1'') = Inr [109, 49]"
  by (simp add: encode_utf8_def utf8_of_code_def str_of_def)

lemma encode_m2: "encode_utf8 (str_of ''m2'') = Inr [109, 50]"
  by (simp add: encode_utf8_def utf8_of_code_def str_of_def)

lemma reachable_after_send: "reachable b \<Longrightarrow> reachable (after_send b now name msg k)"
  unfolding after_send_def
  by (cases "send_message b now name msg k") (auto intro: reachable.send)

lemma reachable_sorted:
  "reachable b \<Longrightarrow> topics b name = Some t \<Longrightarrow> partitions t p = Some records
    \<Longrightarrow> sorted_wrt (<) (map fst records)"
  using reachable_ok [of b] by (auto simp: broker_ok_def dest: topic_ok_sorted)

lemma reachable_tax2: "reachable tax2"
  unfolding tax2_def tax1_def tax0_def
  by (intro reachable_after_send reachable.create reachable.init)

lemma tax2_topic:
  "topics tax2 ''tax'' = Some \<lparr>num_partitions = 1, retention_seconds = 10,
     partitions = (\<lambda>i. if 0 \<le> i \<and> i < 1 then Some [] else None)(0 \<mapsto>
       [(0, \<lparr>timestamp = 0, key = [109, 48], message = str_of ''m0''\<rparr>),
        (1, \<lparr>timestamp = 5, key = [109, 49], message = str_of ''m1''\<rparr>)])\<rparr>"
  by (simp add: tax2_def tax1_def tax0_def after_send_def send_message_def create_topic_def
      Broker_init_def Topic_init_def get_last_offset_def keys_or_def encode_m0 encode_m1)

subsection \<open>Consumer.get\_next\_message\<close>

text \<open>
  Claim C4 (gap detection). A consumer whose cursor is strictly below the oldest live offset
  of its non-empty partition polls: the two lines of the gap report are printed for the
  partition and the oldest live offset, the message of the record at the oldest live offset
  is returned, and the cursor ends one past the oldest live offset.
\<close>

theorem gap_detection:
  assumes "reachable b"
    and "topics b (topic c) = Some t"
    and "partitions t (partition_idx c) = Some records"
    and "records \<noteq> []"
    and "get_first_offset b (topic c) (partition_idx c) = Inr oldest"
    and "offset c < oldest"
  shows "\<exists>rec. map_of records oldest = Some rec \<and>
           get_next_message b c =
             Inr (Some (message rec), c\<lparr>offset := oldest + 1\<rparr>,
                  [Missed (partition_idx c), Skipping oldest])"
proof -
  from assms(4) obtain k rec rest where records: "records = (k, rec) # rest"
    by (cases records) auto
  from assms(2,3,5) records have oldest: "oldest = k"
    by (simp add: get_first_offset_def keys_or_def)
  have "sorted_wrt (<) (map fst records)"
    using assms(1-3) by (rule reachable_sorted)
  then have "k \<le> last (map fst records)"
    using sorted_keys_le_last [of "map fst records" k] records by simp
  then have newest: "get_last_offset b (topic c) (partition_idx c) = Inr (last (map fst records))"
    and le: "oldest \<le> last (map fst records)"
    using assms(2,3) records oldest by (simp_all add: get_last_offset_def keys_or_def)
  have "map_of records oldest = Some rec"
    using records oldest by simp
  moreover from this have "read_message b (topic c) (partition_idx c) oldest = Inr (Some (message rec))"
    using assms(2,3) by (simp add: read_message_def)
  ultimately show ?thesis
    using assms(5,6) newest le by (simp add: get_next_message_def)
qed

lemma reachable_tax3: "reachable tax3"
  unfolding tax3_def by (intro reachable.vacuumed reachable_tax2)

lemma reachable_tax4: "reachable tax4"
  unfolding tax4_def by (intro reachable.vacuumed reachable_tax2)

lemma reachable_tax5: "reachable tax5"
  unfolding tax5_def by (intro reachable_after_send reachable_tax4)

lemma tax3_partition:
  "\<exists>t. topics tax3 ''tax'' = Some t \<and> num_partitions t = 1 \<and> retention_seconds t = 10 \<and>
     partitions t 0 = Some [(1, \<lparr>timestamp = 5, key = [109, 49], message = str_of ''m1''\<rparr>)]"
  by (simp add: tax3_def vacuum_def tax2_topic Topic_vacuum_def dict_del_def)

lemma tax4_partition:
  "\<exists>t. topics tax4 ''tax'' = Some t \<and> num_partitions t = 1 \<and> retention_seconds t = 10 \<and>
     partitions t 0 = Some []"
  by (simp add: tax4_def vacuum_def tax2_topic Topic_vacuum_def dict_del_def)

theorem gap_detection_witness:
  "reachable tax3 \<and> get_first_offset tax3 ''tax'' 0 = Inr 1 \<and>
   get_next_message tax3 \<lparr>topic = ''tax'', partition_idx = 0, offset = 0\<rparr>
     = Inr (Some (str_of ''m1''), \<lparr>topic = ''tax'', partition_idx = 0, offset = 2\<rparr>,
            [Missed 0, Skipping 1])"
proof -
  let ?c = "\<lparr>topic = ''tax'', partition_idx = 0, offset = 0\<rparr>"
  from tax3_partition obtain t where t: "topics tax3 (topic ?c) = Some t"
    and p: "partitions t (partition_idx ?c)
      = Some [(1, \<lparr>timestamp = 5, key = [109, 49], message = str_of ''m1''\<rparr>)]"
    by auto
  have first: "get_first_offset tax3 (topic ?c) (partition_idx ?c) = Inr 1"
    using t p by (simp add: get_first_offset_def keys_or_def)
  have "\<exists>rec. map_of [(1, \<lparr>timestamp = 5, key = [109, 49], message = str_of ''m1''\<rparr>)] (1::int) = Some rec \<and>
      get_next_message tax3 ?c
        = Inr (Some (message rec), ?c\<lparr>offset := 1 + 1\<rparr>, [Missed (partition_idx ?c), Skipping 1])"
    by (rule gap_detection [OF reachable_tax3 t p _ first]) simp_all
  then show ?thesis
    using reachable_tax3 first by simp
qed

text \<open>
  Claim C5 (caught-up idempotence). A consumer whose cursor is above the newest live offset
  polls: the result is \<^verbatim>\<open>None\<close>, nothing is printed and the consumer is unchanged, so
  any number of polls in a row return \<^verbatim>\<open>None\<close> and leave the cursor where it was. On an
  empty partition the oldest and the newest offset are both the sentinel -1, so a fresh
  consumer at cursor 0 is in this case and no gap is reported.
\<close>

lemma first_le_last:
  "sorted_wrt (<) (map fst (records :: (int, 'v) dict)) \<Longrightarrow> hd (keys_or records) \<le> last (keys_or records)"
  using sorted_keys_hd_le [of "map fst records" "last (map fst records)"]
    last_in_set [of "map fst records"]
  by (cases "records = []") (simp_all add: keys_or_def)

theorem caught_up_idempotent:
  assumes "reachable b"
    and "topics b (topic c) = Some t"
    and "partitions t (partition_idx c) = Some records"
    and "get_last_offset b (topic c) (partition_idx c) = Inr newest"
    and "newest < offset c"
  shows "get_next_message b c = Inr (None, c, []) \<and>
         polls n b c = Inr (replicate n None, c, []) \<and>
         (records = [] \<longrightarrow>
            newest = -1 \<and> get_first_offset b (topic c) (partition_idx c) = Inr (-1))"
proof -
  have "sorted_wrt (<) (map fst records)"
    using assms(1-3) by (rule reachable_sorted)
  then have le: "hd (keys_or records) \<le> last (keys_or records)"
    by (rule first_le_last)
  have newest: "newest = last (keys_or records)"
    using assms(2-4) by (simp add: get_last_offset_def)
  have first: "get_first_offset b (topic c) (partition_idx c) = Inr (hd (keys_or records))"
    using assms(2,3) by (simp add: get_first_offset_def)
  have poll: "get_next_message b c = Inr (None, c, [])"
    using first assms(4,5) le newest by (simp add: get_next_message_def)
  have "polls n b c = Inr (replicate n None, c, [])"
    by (induction n) (simp_all add: poll)
  moreover have "records = [] \<longrightarrow>
      newest = -1 \<and> get_first_offset b (topic c) (partition_idx c) = Inr (-1)"
    using newest first by (simp add: keys_or_def)
  ultimately show ?thesis
    using poll by simp
qed

theorem caught_up_idempotent_witness:
  "reachable tax4 \<and> get_last_offset tax4 ''tax'' 0 = Inr (-1) \<and> (-1 :: int) < 0 \<and>
   get_first_offset tax4 ''tax'' 0 = Inr (-1) \<and>
   get_next_message tax4 \<lparr>topic = ''tax'', partition_idx = 0, offset = 0\<rparr>
     = Inr (None, \<lparr>topic = ''tax'', partition_idx = 0, offset = 0\<rparr>, []) \<and>
   polls 3 tax4 \<lparr>topic = ''tax'', partition_idx = 0, offset = 0\<rparr>
     = Inr ([None, None, None], \<lparr>topic = ''tax'', partition_idx = 0, offset = 0\<rparr>, [])"
proof -
  let ?c = "\<lparr>topic = ''tax'', partition_idx = 0, offset = 0\<rparr>"
  from tax4_partition obtain t where t: "topics tax4 (topic ?c) = Some t"
    and p: "partitions t (partition_idx ?c) = Some []"
    by auto
  have newest: "get_last_offset tax4 (topic ?c) (partition_idx ?c) = Inr (-1)"
    using t p by (simp add: get_last_offset_def keys_or_def)
  have lt: "(-1 :: int) < offset ?c" by simp
  from caught_up_idempotent [OF reachable_tax4 t p newest lt, of 3]
  show ?thesis
    using reachable_tax4 newest by (simp add: numeral_3_eq_3)
qed

subsection \<open>Broker.read\_message\<close>

lemma reachable_range:
  "reachable b \<Longrightarrow> topics b name = Some t \<Longrightarrow> (partitions t p = None) = (\<not> (0 \<le> p \<and> p < num_partitions t))"
  using reachable_ok [of b] by (auto simp: broker_ok_def dest: topic_ok_dom)

lemma tax2_partition:
  "\<exists>t. topics tax2 ''tax'' = Some t \<and> num_partitions t = 1 \<and> retention_seconds t = 10 \<and>
     partitions t 0 = Some [(0, \<lparr>timestamp = 0, key = [109, 48], message = str_of ''m0''\<rparr>),
                            (1, \<lparr>timestamp = 5, key = [109, 49], message = str_of ''m1''\<rparr>)]"
  by (simp add: tax2_topic)

text \<open>
  Claim C7 as stated fails: on the existing topic \<^verbatim>\<open>tax\<close> with one partition, reading from
  partition 5 or from partition -1 is no error, the result is \<^verbatim>\<open>None\<close>.
\<close>

theorem read_message_invalid_partition_is_None:
  "read_message tax2 ''tax'' 5 0 = Inr None \<and> read_message tax2 ''tax'' (-1) 0 = Inr None"
  by (simp add: read_message_def tax2_topic)

text \<open>
  Claim C7, amended. \<^verbatim>\<open>read_message\<close> raises only for an unknown topic name, and then
  KeyError. For every existing topic it returns a result: with a partition index outside
  \<open>[0, num_partitions)\<close> the result is \<^verbatim>\<open>None\<close>, the same result as for an offset that
  is not stored in an existing partition; for an offset that is stored in the partition, the
  result is the message of its record.
\<close>

theorem read_message_outside:
  assumes "reachable b"
  shows "(topics b name = None \<longrightarrow> read_message b name p off = Inl KeyError) \<and>
         (\<forall>t. topics b name = Some t \<longrightarrow>
            (\<exists>r. read_message b name p off = Inr r) \<and>
            (\<not> (0 \<le> p \<and> p < num_partitions t) \<longrightarrow>
               read_message b name p off = Inr None \<and>
               (\<forall>q records. partitions t q = Some records \<longrightarrow> off \<notin> fst ` set records
                  \<longrightarrow> read_message b name q off = read_message b name p off)) \<and>
            (\<forall>records rec. partitions t p = Some records \<longrightarrow> map_of records off = Some rec
               \<longrightarrow> read_message b name p off = Inr (Some (message rec))))"
proof (intro conjI allI impI)
  assume "topics b name = None"
  then show "read_message b name p off = Inl KeyError"
    by (simp add: read_message_def)
next
  fix t assume "topics b name = Some t"
  then show "\<exists>r. read_message b name p off = Inr r"
    by (simp add: read_message_def split: option.splits)
next
  fix t assume t: "topics b name = Some t" and out: "\<not> (0 \<le> p \<and> p < num_partitions t)"
  from reachable_range [OF assms t, of p] out have "partitions t p = None"
    by simp
  with t show "read_message b name p off = Inr None"
    by (simp add: read_message_def)
next
  fix t q records
  assume t: "topics b name = Some t" and out: "\<not> (0 \<le> p \<and> p < num_partitions t)"
    and q: "partitions t q = Some records" and off: "off \<notin> fst ` set records"
  from reachable_range [OF assms t, of p] out have "partitions t p = None"
    by simp
  with t have "read_message b name p off = Inr None"
    by (simp add: read_message_def)
  moreover from off have "map_of records off = None"
    by (simp add: map_of_eq_None_iff)
  with t q have "read_message b name q off = Inr None"
    by (simp add: read_message_def)
  ultimately show "read_message b name q off = read_message b name p off"
    by simp
next
  fix t records rec
  assume "topics b name = Some t" and "partitions t p = Some records"
    and "map_of records off = Some rec"
  then show "read_message b name p off = Inr (Some (message rec))"
    by (simp add: read_message_def)
qed

theorem read_message_outside_witness:
  "reachable tax2 \<and> topics tax2 ''nope'' = None \<and> topics tax2 ''tax'' \<noteq> None \<and>
   \<not> (0 \<le> (5::int) \<and> (5::int) < 1) \<and>
   read_message tax2 ''nope'' 0 0 = Inl KeyError \<and>
   read_message tax2 ''tax'' 5 7 = Inr None \<and> read_message tax2 ''tax'' 0 7 = Inr None \<and>
   read_message tax2 ''tax'' 0 1 = Inr (Some (str_of ''m1''))"
proof -
  from tax2_partition obtain t where t: "topics tax2 ''tax'' = Some t"
    and n: "num_partitions t = 1"
    and p: "partitions t 0 = Some [(0, \<lparr>timestamp = 0, key = [109, 48], message = str_of ''m0''\<rparr>),
                                   (1, \<lparr>timestamp = 5, key = [109, 49], message = str_of ''m1''\<rparr>)]"
    by auto
  have unknown: "topics tax2 ''nope'' = None"
    by (simp add: tax2_def tax1_def tax0_def after_send_def send_message_def create_topic_def
        Broker_init_def Topic_init_def get_last_offset_def keys_or_def encode_m0 encode_m1)
  note out = read_message_outside [OF reachable_tax2, of "''tax''" 5 7]
  note missing = read_message_outside [OF reachable_tax2, of "''tax''" 0 7]
  note stored = read_message_outside [OF reachable_tax2, of "''tax''" 0 1]
  note raised = read_message_outside [OF reachable_tax2, of "''nope''" 0 0]
  have a: "read_message tax2 ''nope'' 0 0 = Inl KeyError"
    using raised unknown by blast
  have b: "read_message tax2 ''tax'' 5 7 = Inr None"
    using out t n by auto
  have c: "read_message tax2 ''tax'' 0 7 = Inr None"
    using out t n p b by auto
  have d: "read_message tax2 ''tax'' 0 1 = Inr (Some (str_of ''m1''))"
    using stored t p by auto
  show ?thesis
    using reachable_tax2 unknown t a b c d by simp
qed

subsection \<open>Broker.create\_topic\<close>

text \<open>
  Claim C3 as stated fails: creating the topic \<^verbatim>\<open>tax\<close> a second time raises nothing and
  replaces the topic; the message that was readable at offset 0 is gone.
\<close>

theorem create_topic_replaces:
  "read_message tax2 ''tax'' 0 0 = Inr (Some (str_of ''m0'')) \<and>
   read_message (create_topic tax2 ''tax'' 1 10) ''tax'' 0 0 = Inr None \<and>
   get_last_offset (create_topic tax2 ''tax'' 1 10) ''tax'' 0 = Inr (-1)"
  by (simp add: read_message_def get_last_offset_def keys_or_def tax2_topic create_topic_def
      Topic_init_def)

text \<open>
  Claim C3, amended. \<^verbatim>\<open>create_topic\<close> never fails. When the name is already registered,
  the topic is replaced by a new, empty topic with the given number of partitions and
  retention: no offset of it can be read, every partition in range is empty, and the other
  topics are as before.
\<close>

theorem create_topic_existing:
  assumes "topics b name = Some t"
  shows "topics (create_topic b name n r) name = Some (Topic_init n r) \<and>
         read_message (create_topic b name n r) name p off = Inr None \<and>
         (0 \<le> p \<and> p < n \<longrightarrow> get_last_offset (create_topic b name n r) name p = Inr (-1)) \<and>
         (\<forall>other. other \<noteq> name \<longrightarrow> topics (create_topic b name n r) other = topics b other)"
  by (simp add: create_topic_def read_message_def get_last_offset_def keys_or_def Topic_init_def)

theorem create_topic_existing_witness:
  "topics tax2 ''tax'' \<noteq> None \<and>
   topics (create_topic tax2 ''tax'' 3 7) ''tax'' = Some (Topic_init 3 7) \<and>
   read_message (create_topic tax2 ''tax'' 3 7) ''tax'' 0 0 = Inr None \<and>
   get_last_offset (create_topic tax2 ''tax'' 3 7) ''tax'' 2 = Inr (-1)"
proof -
  from tax2_partition obtain t where t: "topics tax2 ''tax'' = Some t"
    by auto
  from create_topic_existing [OF t, of 3 7 0 0] create_topic_existing [OF t, of 3 7 2 0] t
  show ?thesis by simp
qed

subsection \<open>Broker.send\_message\<close>

lemma sorted_keys_last_snoc:
  "last (keys_or (records @ [(k, v)])) = k"
  by (simp add: keys_or_def)

lemma send_message_reachable:
  assumes "reachable b" and "topics b name = Some t" and "0 < num_partitions t"
    and "encode_utf8 (key_or k msg) = Inr key_bytes"
  obtains records where
    "partitions t (sha1_int key_bytes mod num_partitions t) = Some records"
    and "sorted_wrt (<) (map fst records)"
    and "send_message b now name msg k = Inr (None,
           b\<lparr>topics := (topics b)(name \<mapsto>
             t\<lparr>partitions := (partitions t)(sha1_int key_bytes mod num_partitions t \<mapsto>
               records @ [(last (keys_or records) + 1,
                 \<lparr>timestamp = now, key = key_bytes, message = msg\<rparr>)])\<rparr>)\<rparr>)"
proof -
  let ?p = "sha1_int key_bytes mod num_partitions t"
  have "0 \<le> ?p \<and> ?p < num_partitions t"
    using assms(3) by simp
  with reachable_range [OF assms(1,2), of ?p] obtain records
    where p: "partitions t ?p = Some records" by auto
  have srt: "sorted_wrt (<) (map fst records)"
    using assms(1,2) p by (rule reachable_sorted)
  have "dict_set (last (keys_or records) + 1)
          \<lparr>timestamp = now, key = key_bytes, message = msg\<rparr> records
        = records @ [(last (keys_or records) + 1,
            \<lparr>timestamp = now, key = key_bytes, message = msg\<rparr>)]"
    by (rule dict_set_fresh) (rule next_offset_fresh [OF srt])
  with assms(2-4) p have "send_message b now name msg k = Inr (None,
           b\<lparr>topics := (topics b)(name \<mapsto>
             t\<lparr>partitions := (partitions t)(?p \<mapsto>
               records @ [(last (keys_or records) + 1,
                 \<lparr>timestamp = now, key = key_bytes, message = msg\<rparr>)])\<rparr>)\<rparr>)"
    by (simp add: send_message_def get_last_offset_def Let_def)
  with p srt show ?thesis by (rule that)
qed

text \<open>
  Claim C2 as stated fails: the first message sent to the topic \<^verbatim>\<open>tax\<close> lands in
  partition 0 at offset 0, where \<^verbatim>\<open>read_message\<close> finds it, but the call of
  \<^verbatim>\<open>send_message\<close> returns \<^verbatim>\<open>None\<close> and not the pair (0, 0).
\<close>

theorem send_message_returns_None:
  "map_sum id fst (send_message tax0 0 ''tax'' (str_of ''m0'') None) = Inr None \<and>
   map_sum id fst (send_message tax0 0 ''tax'' (str_of ''m0'') None) \<noteq> Inr (Some (0, 0)) \<and>
   read_message (after_send tax0 0 ''tax'' (str_of ''m0'') None) ''tax'' 0 0 = Inr (Some (str_of ''m0''))"
  by (simp add: tax0_def after_send_def send_message_def create_topic_def Broker_init_def
      Topic_init_def get_last_offset_def keys_or_def read_message_def encode_m0)

text \<open>
  Claim C2, amended. For every existing topic with at least one partition and every payload
  and key whose routing key (the key when it is given and not empty, else the payload) can be
  encoded as UTF-8, \<^verbatim>\<open>send_message\<close> succeeds and returns \<^verbatim>\<open>None\<close>; the message is
  stored in the partition with index SHA-1 of the encoded routing key modulo the number of
  partitions, which lies in \<open>[0, num_partitions)\<close>, at the offset one above the last offset
  of that partition, where \<^verbatim>\<open>read_message\<close> returns it and which is the new last offset.
  When the routing key cannot be encoded, the call raises UnicodeEncodeError.
\<close>

theorem send_message_stores:
  assumes "reachable b" and "topics b name = Some t" and "0 < num_partitions t"
  shows "(\<forall>e. encode_utf8 (key_or k msg) = Inl e \<longrightarrow>
            e = UnicodeEncodeError \<and> send_message b now name msg k = Inl UnicodeEncodeError) \<and>
         (\<forall>key_bytes p. encode_utf8 (key_or k msg) = Inr key_bytes \<longrightarrow>
            p = sha1_int key_bytes mod num_partitions t \<longrightarrow>
            (\<exists>b' last_offset.
               send_message b now name msg k = Inr (None, b') \<and>
               0 \<le> p \<and> p < num_partitions t \<and>
               get_last_offset b name p = Inr last_offset \<and>
               read_message b' name p (last_offset + 1) = Inr (Some msg) \<and>
               get_last_offset b' name p = Inr (last_offset + 1)))"
proof (rule conjI)
  show "\<forall>e. encode_utf8 (key_or k msg) = Inl e \<longrightarrow>
      e = UnicodeEncodeError \<and> send_message b now name msg k = Inl UnicodeEncodeError"
    using assms(2) by (auto simp: encode_utf8_def send_message_def split: if_splits)
next
  show "\<forall>key_bytes p. encode_utf8 (key_or k msg) = Inr key_bytes \<longrightarrow>
            p = sha1_int key_bytes mod num_partitions t \<longrightarrow>
            (\<exists>b' last_offset.
               send_message b now name msg k = Inr (None, b') \<and>
               0 \<le> p \<and> p < num_partitions t \<and>
               get_last_offset b name p = Inr last_offset \<and>
               read_message b' name p (last_offset + 1) = Inr (Some msg) \<and>
               get_last_offset b' name p = Inr (last_offset + 1))"
  proof (intro allI impI)
  fix key_bytes p
  assume enc: "encode_utf8 (key_or k msg) = Inr key_bytes"
    and idx: "p = sha1_int key_bytes mod num_partitions t"
  from assms enc obtain records where
    p: "partitions t (sha1_int key_bytes mod num_partitions t) = Some records"
    and srt: "sorted_wrt (<) (map fst records)"
    and send: "send_message b now name msg k = Inr (None,
           b\<lparr>topics := (topics b)(name \<mapsto>
             t\<lparr>partitions := (partitions t)(sha1_int key_bytes mod num_partitions t \<mapsto>
               records @ [(last (keys_or records) + 1,
                 \<lparr>timestamp = now, key = key_bytes, message = msg\<rparr>)])\<rparr>)\<rparr>)"
    by (rule send_message_reachable)
  have fresh: "map_of records (last (keys_or records) + 1) = None"
    using next_offset_fresh [OF srt] by (simp add: map_of_eq_None_iff)
  have range: "0 \<le> p \<and> p < num_partitions t"
    using assms(3) idx by simp
  show "\<exists>b' last_offset.
               send_message b now name msg k = Inr (None, b') \<and>
               0 \<le> p \<and> p < num_partitions t \<and>
               get_last_offset b name p = Inr last_offset \<and>
               read_message b' name p (last_offset + 1) = Inr (Some msg) \<and>
               get_last_offset b' name p = Inr (last_offset + 1)"
    using send p fresh range assms(2) idx
    by (simp add: get_last_offset_def read_message_def sorted_keys_last_snoc map_add_def)
  qed
qed

theorem send_message_stores_witness:
  "reachable tax2 \<and> (0::int) < 1 \<and>
   encode_utf8 (key_or None (str_of ''m2'')) = Inr [109, 50] \<and>
   (0::int) = sha1_int [109, 50] mod 1 \<and>
   (\<exists>b'. send_message tax2 8 ''tax'' (str_of ''m2'') None = Inr (None, b') \<and>
      read_message b' ''tax'' 0 2 = Inr (Some (str_of ''m2'')) \<and>
      get_last_offset b' ''tax'' 0 = Inr 2) \<and>
   encode_utf8 (key_or (Some [0xD800]) (str_of ''m2'')) = Inl UnicodeEncodeError \<and>
   send_message tax2 8 ''tax'' (str_of ''m2'') (Some [0xD800]) = Inl UnicodeEncodeError"
proof -
  from tax2_partition obtain t where t: "topics tax2 ''tax'' = Some t"
    and n: "num_partitions t = 1"
    and p: "partitions t 0 = Some [(0, \<lparr>timestamp = 0, key = [109, 48], message = str_of ''m0''\<rparr>),
                                   (1, \<lparr>timestamp = 5, key = [109, 49], message = str_of ''m1''\<rparr>)]"
    by auto
  have pos: "0 < num_partitions t" using n by simp
  have enc: "encode_utf8 (key_or None (str_of ''m2'')) = Inr [109, 50]"
    by (simp add: encode_m2)
  have bad: "encode_utf8 (key_or (Some [0xD800]) (str_of ''m2'')) = Inl UnicodeEncodeError"
    by (simp add: encode_utf8_def)
  have idx: "(0::int) = sha1_int [109, 50] mod num_partitions t"
    using n by simp
  have last: "get_last_offset tax2 ''tax'' 0 = Inr 1"
    using t p by (simp add: get_last_offset_def keys_or_def)
  note ok = send_message_stores [OF reachable_tax2 t pos, of None "str_of ''m2''" 8]
  note raised = send_message_stores [OF reachable_tax2 t pos, of "Some [0xD800]" "str_of ''m2''" 8]
  from ok enc idx have "\<exists>b' last_offset.
      send_message tax2 8 ''tax'' (str_of ''m2'') None = Inr (None, b') \<and>
      0 \<le> (0::int) \<and> 0 < num_partitions t \<and>
      get_last_offset tax2 ''tax'' 0 = Inr last_offset \<and>
      read_message b' ''tax'' 0 (last_offset + 1) = Inr (Some (str_of ''m2'')) \<and>
      get_last_offset b' ''tax'' 0 = Inr (last_offset + 1)"
    by blast
  with last have stored: "\<exists>b'. send_message tax2 8 ''tax'' (str_of ''m2'') None = Inr (None, b') \<and>
      read_message b' ''tax'' 0 2 = Inr (Some (str_of ''m2'')) \<and>
      get_last_offset b' ''tax'' 0 = Inr 2"
    by auto
  from raised bad have "send_message tax2 8 ''tax'' (str_of ''m2'') (Some [0xD800]) = Inl UnicodeEncodeError"
    by blast
  with stored enc bad idx n show ?thesis
    using reachable_tax2 by simp
qed

text \<open>
  Claim C1 does not hold of the code. In the scenario, the two messages sent at time 0 and 5
  get the offsets 0 and 1; the vacuum at time 20 evicts both records, which leaves the dict
  of the partition empty, so that \<^verbatim>\<open>get_last_offset\<close> falls back to the sentinel -1; the
  message sent at time 21 is stored at offset 0, the offset that the first message had.
\<close>

theorem offset_reused_after_full_eviction:
  "get_last_offset tax0 ''tax'' 0 = Inr (-1) \<and>
   read_message tax1 ''tax'' 0 0 = Inr (Some (str_of ''m0'')) \<and>
   get_last_offset tax1 ''tax'' 0 = Inr 0 \<and>
   get_last_offset tax2 ''tax'' 0 = Inr 1 \<and>
   get_last_offset tax4 ''tax'' 0 = Inr (-1) \<and>
   read_message tax5 ''tax'' 0 0 = Inr (Some (str_of ''m2'')) \<and>
   get_last_offset tax5 ''tax'' 0 = Inr 0"
  by (simp add: tax5_def tax4_def vacuum_def Topic_vacuum_def dict_del_def tax2_topic
      tax1_def tax0_def after_send_def send_message_def create_topic_def Broker_init_def
      Topic_init_def get_last_offset_def keys_or_def read_message_def encode_m0 encode_m1
      encode_m2)

subsection \<open>Topic.vacuum\<close>






section \<open>A clock that never goes back\<close>

lemma contiguous_tl: "contiguous (k # ks) \<Longrightarrow> contiguous ks"
  by (cases ks) simp_all

lemma contiguous_sorted: "contiguous ks \<Longrightarrow> sorted_wrt (<) ks"
  by (induction ks rule: contiguous.induct) auto

lemma contiguous_snoc:
  "contiguous ks \<Longrightarrow> contiguous (ks @ [last (if ks = [] then [-1] else ks) + 1])"
  by (induction ks rule: contiguous.induct) auto

lemma contiguous_dropWhile:
  "contiguous (map fst xs) \<Longrightarrow> contiguous (map fst (dropWhile P xs))"
  by (induction xs) (auto dest: contiguous_tl)

lemma contiguous_upto:
  "contiguous ks \<Longrightarrow> ks \<noteq> [] \<Longrightarrow> ks = [hd ks .. last ks]"
proof (induction ks rule: contiguous.induct)
  case 1
  then show ?case by simp
next
  case (2 k)
  then show ?case by simp
next
  case (3 k k' ks)
  from "3.prems" have k': "k' = k + 1" and c: "contiguous (k' # ks)" by auto
  note "3.IH" [OF c list.simps(3)]
  then have IH: "k' # ks = [k' .. last (k' # ks)]"
    by (simp only: list.sel)
  have "k' \<le> last (k' # ks)"
    using sorted_keys_le_last [OF contiguous_sorted [OF c], of k'] by simp
  with k' have step: "[k .. last (k' # ks)] = k # [k' .. last (k' # ks)]"
    by (simp add: upto_rec1)
  have "[hd (k # k' # ks) .. last (k # k' # ks)] = [k .. last (k' # ks)]"
    by simp
  also note step
  also have "k # [k' .. last (k' # ks)] = k # k' # ks"
    by (subst IH [symmetric]) (rule refl)
  finally show ?case
    by (rule sym)
qed

lemma filter_expired_dropWhile:
  "monotone_add add \<Longrightarrow> sorted (map (\<lambda>kv. timestamp (snd kv)) xs) \<Longrightarrow>
     filter (\<lambda>kv. \<not> add (timestamp (snd kv)) R < now) xs
       = dropWhile (\<lambda>kv. add (timestamp (snd kv)) R < now) xs"
proof (induction xs)
  case Nil
  then show ?case by simp
next
  case (Cons x xs)
  show ?case
  proof (cases "add (timestamp (snd x)) R < now")
    case True
    with Cons show ?thesis by simp
  next
    case False
    have "\<not> add (timestamp (snd y)) R < now" if "y \<in> set xs" for y
    proof -
      from Cons.prems(2) that have "timestamp (snd x) \<le> timestamp (snd y)" by auto
      with Cons.prems(1) have "add (timestamp (snd x)) R \<le> add (timestamp (snd y)) R"
        unfolding monotone_add_def by blast
      with False show ?thesis by simp
    qed
    then have "\<forall>y \<in> set xs. \<not> add (timestamp (snd y)) R < now"
      by blast
    then have "filter (\<lambda>kv. \<not> add (timestamp (snd kv)) R < now) xs = xs"
      by (simp add: filter_id_conv)
    with False show ?thesis by simp
  qed
qed

lemma records_at_mono: "records_at T records \<Longrightarrow> T \<le> T' \<Longrightarrow> records_at T' records"
  unfolding records_at_def by fastforce

lemma records_at_vacuum:
  assumes "records_at T records" and "monotone_add add"
  shows "records_at T (vacuum_records add R now records records)"
proof -
  from assms have c: "contiguous (map fst records)"
    and s: "sorted (map (\<lambda>kv. timestamp (snd kv)) records)"
    and b: "\<forall>kv \<in> set records. timestamp (snd kv) \<le> T"
    by (simp_all add: records_at_def)
  have v: "vacuum_records add R now records records
      = filter (\<lambda>kv. \<not> add (timestamp (snd kv)) R < now) records"
    using contiguous_sorted [OF c] by (intro vacuum_records_self sorted_keys_distinct)
  have "contiguous (map fst (filter (\<lambda>kv. \<not> add (timestamp (snd kv)) R < now) records))"
    using c by (simp add: filter_expired_dropWhile [OF assms(2) s] contiguous_dropWhile)
  moreover have "sorted (map (\<lambda>kv. timestamp (snd kv))
      (filter (\<lambda>kv. \<not> add (timestamp (snd kv)) R < now) records))"
    using s by (rule sorted_filter)
  ultimately show ?thesis
    using b by (simp add: records_at_def v)
qed

lemma records_at_send:
  assumes "records_at T records" and "T \<le> now"
  shows "records_at now (dict_set (last (keys_or records) + 1)
           \<lparr>timestamp = now, key = kb, message = msg\<rparr> records)"
proof -
  from assms have c: "contiguous (map fst records)"
    and s: "sorted (map (\<lambda>kv. timestamp (snd kv)) records)"
    and b: "\<forall>kv \<in> set records. timestamp (snd kv) \<le> now"
    by (auto simp: records_at_def)
  have d: "dict_set (last (keys_or records) + 1)
           \<lparr>timestamp = now, key = kb, message = msg\<rparr> records
        = records @ [(last (keys_or records) + 1, \<lparr>timestamp = now, key = kb, message = msg\<rparr>)]"
    by (rule dict_set_fresh) (rule next_offset_fresh [OF contiguous_sorted [OF c]])
  have "contiguous (map fst records @ [last (keys_or records) + 1])"
    using contiguous_snoc [OF c] by (simp add: keys_or_def)
  moreover have "sorted (map (\<lambda>kv. timestamp (snd kv)) records @ [now])"
    using s b by (auto simp: sorted_append)
  ultimately show ?thesis
    using b by (simp add: records_at_def d)
qed

lemma reachable_at_reachable: "reachable_at T b \<Longrightarrow> reachable b"
  by (induction rule: reachable_at.induct) (auto intro: reachable.intros)

lemma reachable_at_weaken: "reachable_at T b \<Longrightarrow> T \<le> T' \<Longrightarrow> reachable_at T' b"
proof (induction arbitrary: T' rule: reachable_at.induct)
  case (init_at T)
  show ?case by (rule reachable_at.init_at)
next
  case (create_at T b name n r)
  then show ?case by (auto intro: reachable_at.create_at)
next
  case (send_at T b now T0 name msg k ret b')
  from send_at.hyps(1,2) _ send_at.hyps(4) show ?case
    by (rule reachable_at.send_at) (use send_at.hyps(3) send_at.prems in simp)
next
  case (vacuumed_at T b nows T0 add)
  from vacuumed_at.hyps(1) _ _ vacuumed_at.hyps(4) show ?case
    by (rule reachable_at.vacuumed_at) (use vacuumed_at.hyps(2,3) vacuumed_at.prems in force)+
qed

lemma reachable_at_after_send:
  "reachable_at T b \<Longrightarrow> T \<le> now \<Longrightarrow> reachable_at now (after_send b now name msg k)"
  unfolding after_send_def
  by (cases "send_message b now name msg k")
    (auto intro: reachable_at.send_at reachable_at_weaken)

lemma reachable_at_broker_at: "reachable_at T b \<Longrightarrow> broker_at T b"
proof (induction rule: reachable_at.induct)
  case (init_at T)
  show ?case by (simp add: broker_at_def Broker_init_def)
next
  case (create_at T b name n r)
  then show ?case
    by (auto simp: broker_at_def create_topic_def Topic_init_def records_at_def split: if_splits)
next
  case (send_at T b now T' name msg k ret b')
  from send_at.hyps(4) obtain t key_bytes records where t: "topics b name = Some t"
    and p: "partitions t (sha1_int key_bytes mod num_partitions t) = Some records"
    and b': "b' = b\<lparr>topics := (topics b)(name \<mapsto>
           t\<lparr>partitions := (partitions t)(sha1_int key_bytes mod num_partitions t \<mapsto>
             dict_set (last (keys_or records) + 1)
               \<lparr>timestamp = now, key = key_bytes, message = msg\<rparr> records)\<rparr>)\<rparr>"
    by (rule send_message_Inr)
  from send_at.IH t p have "records_at T records"
    by (simp add: broker_at_def)
  from records_at_mono [OF records_at_send [OF this send_at.hyps(2)] send_at.hyps(3)]
  have new: "records_at T' (dict_set (last (keys_or records) + 1)
               \<lparr>timestamp = now, key = key_bytes, message = msg\<rparr> records)" .
  have old: "records_at T' r" if "topics b nm = Some t0" and "partitions t0 q = Some r" for nm t0 q r
  proof -
    have "records_at T r"
      using send_at.IH that unfolding broker_at_def by blast
    then show ?thesis
      using send_at.hyps(2,3) by (intro records_at_mono [of T r T']) simp_all
  qed
  show ?case
    unfolding broker_at_def b' using new old t by (auto split: if_splits)
next
  case (vacuumed_at T b nows T' add)
  have old: "records_at T' r" if "topics b nm = Some t0" and "partitions t0 q = Some r" for nm t0 q r
  proof -
    have "records_at T r"
      using vacuumed_at.IH that unfolding broker_at_def by blast
    then show ?thesis
      using vacuumed_at.hyps(3) by (rule records_at_mono)
  qed
  show ?case
    unfolding broker_at_def
  proof (intro allI impI)
    fix name t p records
    assume "topics (vacuum add b nows) name = Some t" and "partitions t p = Some records"
    then obtain t0 r0 where t0: "topics b name = Some t0" and r0: "partitions t0 p = Some r0"
      and records: "records = vacuum_records add (retention_seconds t0) (nows name) r0 r0"
      by (auto simp: vacuum_def Topic_vacuum_def split: option.splits)
    from old [OF t0 r0] vacuumed_at.hyps(4) show "records_at T' records"
      unfolding records by (rule records_at_vacuum)
  qed
qed

text \<open>
  Claim C10 (implicit invariant). When the clock readings of the calls never decrease, then
  in every partition of every reachable broker the timestamps of the stored records are
  non-decreasing in the order of the offsets, a vacuum at any clock reading removes a prefix
  of the records (what stays is the list without its first \<open>n\<close> items), and the live offsets
  are all the integers from the first to the last live offset. The addition of timestamp and
  retention is any addition that is monotone in the timestamp, such as the exact one and the
  one rounded to the nearest double.
\<close>

theorem live_offsets_contiguous:
  assumes "reachable_at T b" and "topics b name = Some t" and "partitions t p = Some records"
    and "monotone_add add"
  shows "sorted (map (\<lambda>kv. timestamp (snd kv)) records) \<and>
         (\<exists>n. vacuum_records add (retention_seconds t) now records records = drop n records) \<and>
         (\<exists>lo hi. get_first_offset b name p = Inr lo \<and> get_last_offset b name p = Inr hi \<and>
            map fst records = (if records = [] then [] else [lo .. hi]))"
proof -
  from reachable_at_broker_at [OF assms(1)] assms(2,3) have at: "records_at T records"
    by (simp add: broker_at_def)
  then have c: "contiguous (map fst records)"
    and s: "sorted (map (\<lambda>kv. timestamp (snd kv)) records)"
    by (simp_all add: records_at_def)
  have "vacuum_records add (retention_seconds t) now records records
      = filter (\<lambda>kv. \<not> add (timestamp (snd kv)) (retention_seconds t) < now) records"
    using contiguous_sorted [OF c] by (intro vacuum_records_self sorted_keys_distinct)
  also have "\<dots> = drop (length (takeWhile (\<lambda>kv. add (timestamp (snd kv)) (retention_seconds t) < now)
      records)) records"
    by (simp add: filter_expired_dropWhile [OF assms(4) s] dropWhile_eq_drop)
  finally have prefix: "\<exists>n. vacuum_records add (retention_seconds t) now records records = drop n records"
    by blast
  have "map fst records = (if records = [] then [] else [hd (keys_or records) .. last (keys_or records)])"
    using contiguous_upto [OF c] by (simp add: keys_or_def)
  then have "\<exists>lo hi. get_first_offset b name p = Inr lo \<and> get_last_offset b name p = Inr hi \<and>
            map fst records = (if records = [] then [] else [lo .. hi])"
    using assms(2,3) by (simp add: get_first_offset_def get_last_offset_def)
  with s prefix show ?thesis by simp
qed

lemma monotone_add_plus: "monotone_add (+)"
  by (simp add: monotone_add_def)

theorem live_offsets_contiguous_witness:
  "reachable_at 12 tax3 \<and> monotone_add (+) \<and>
   get_first_offset tax3 ''tax'' 0 = Inr 1 \<and> get_last_offset tax3 ''tax'' 0 = Inr 1 \<and>
   (\<exists>t records. topics tax3 ''tax'' = Some t \<and> partitions t 0 = Some records \<and>
      map fst records = [1] \<and> sorted (map (\<lambda>kv. timestamp (snd kv)) records) \<and>
      (\<exists>n. vacuum_records (+) (retention_seconds t) 30 records records = drop n records))"
proof -
  have r: "reachable_at 12 tax3"
    unfolding tax3_def tax2_def tax1_def tax0_def
    by (rule reachable_at.vacuumed_at [where T = 5])
      (auto intro!: reachable_at_after_send [where T = 0] reachable_at.create_at
        reachable_at.init_at monotone_add_plus)
  from tax3_partition obtain t where t: "topics tax3 ''tax'' = Some t"
    and p: "partitions t 0 = Some [(1, \<lparr>timestamp = 5, key = [109, 49], message = str_of ''m1''\<rparr>)]"
    by auto
  have first: "get_first_offset tax3 ''tax'' 0 = Inr 1"
    and last: "get_last_offset tax3 ''tax'' 0 = Inr 1"
    using t p by (simp_all add: get_first_offset_def get_last_offset_def keys_or_def)
  from live_offsets_contiguous [OF r t p monotone_add_plus, of 30] first last t p
  show ?thesis
    using r monotone_add_plus by auto
qed

section \<open>Routing by SHA-1\<close>

text \<open>The model of SHA-1 on the test vectors of FIPS 180 (the empty message, \<^verbatim>\<open>abc\<close> and the
  two-block message), the digest of \<^verbatim>\<open>a\<close>, and the UTF-8 encoding on one code point of
  each length.\<close>

lemma sha1_int_empty: "sha1_int [] = 0xda39a3ee5e6b4b0d3255bfef95601890afd80709"
  by code_simp

lemma sha1_int_abc: "sha1_int [97, 98, 99] = 0xa9993e364706816aba3e25717850c26c9cd0d89d"
  by code_simp

lemma sha1_int_two_blocks:
  "sha1_int (map of_char ''abcdbcdecdefdefgefghfghighijhijkijkljklmklmnlmnomnopnopq'')
     = 0x84983e441c3bd26ebaae4aa1f95129e5e54670f1"
  by code_simp

lemma sha1_int_a: "sha1_int [97] = 0x86f7e437faa5a7fce15d1ddcb9eaeaea377667b8"
  by code_simp

lemma encode_utf8_lengths:
  "encode_utf8 [0x41] = Inr [0x41]"
  "encode_utf8 [0xE9] = Inr [0xC3, 0xA9]"
  "encode_utf8 [0x20AC] = Inr [0xE2, 0x82, 0xAC]"
  "encode_utf8 [0x1F600] = Inr [0xF0, 0x9F, 0x98, 0x80]"
  "encode_utf8 [0xD800] = Inl UnicodeEncodeError"
  by (simp_all add: encode_utf8_def utf8_of_code_def)

lemma encode_a: "encode_utf8 (str_of ''a'') = Inr [97]"
  by (simp add: encode_utf8_def utf8_of_code_def str_of_def)

lemma encode_abc: "encode_utf8 (str_of ''abc'') = Inr [97, 98, 99]"
  by (simp add: encode_utf8_def utf8_of_code_def str_of_def)

lemma str_of_nonempty: "str_of ''a'' \<noteq> []" "str_of ''abc'' \<noteq> []"
  by (simp_all add: str_of_def)

lemma sales0_topic: "topics sales0 ''sales'' = Some (Topic_init 2 5)"
  by (simp add: sales0_def create_topic_def)

lemma reachable_sales0: "reachable sales0"
  unfolding sales0_def by (intro reachable.create reachable.init)

text \<open>
  Claim C8 does not hold of the code for the empty key. Two messages sent to the
  two-partition topic \<^verbatim>\<open>sales\<close> with the same explicit key \<^verbatim>\<open>''\<close> are routed by their
  payloads, \<^verbatim>\<open>a\<close> to partition 0 and \<^verbatim>\<open>abc\<close> to partition 1, in stage 03 and in stage 02
  alike: \<^verbatim>\<open>key or message\<close> takes the empty key for no key.
\<close>

theorem empty_key_routes_by_payload:
  "read_message (after_send sales0 0 ''sales'' (str_of ''a'') (Some [])) ''sales'' 0 0
     = Inr (Some (str_of ''a'')) \<and>
   read_message (after_send sales0 0 ''sales'' (str_of ''a'') (Some [])) ''sales'' 1 0
     = Inr None \<and>
   read_message (after_send sales0 0 ''sales'' (str_of ''abc'') (Some [])) ''sales'' 1 0
     = Inr (Some (str_of ''abc'')) \<and>
   read_message (after_send sales0 0 ''sales'' (str_of ''abc'') (Some [])) ''sales'' 0 0
     = Inr None \<and>
   (case send_message2 (create_topic2 Broker2_init ''sales'' 2) ''sales'' (str_of ''a'') (Some [])
    of Inl e \<Rightarrow> Inl e | Inr b \<Rightarrow> read_message2 b ''sales'' 0 0) = Inr (Some (str_of ''a'')) \<and>
   (case send_message2 (create_topic2 Broker2_init ''sales'' 2) ''sales'' (str_of ''abc'') (Some [])
    of Inl e \<Rightarrow> Inl e | Inr b \<Rightarrow> read_message2 b ''sales'' 1 0) = Inr (Some (str_of ''abc''))"
  by (simp add: after_send_def send_message_def sales0_topic Topic_init_def sha1_int_a
      sha1_int_abc get_last_offset_def keys_or_def read_message_def Let_def encode_a encode_abc
      send_message2_def create_topic2_def read_message2_def list_index_def)

text \<open>
  For every other routing key the partition is a function of the key: a send whose routing
  key (the key when it is given and not empty, else the payload) encodes to \<open>key_bytes\<close>
  appends its record to the partition with index SHA-1 of \<open>key_bytes\<close> modulo the number of
  partitions, which lies in \<open>[0, num_partitions)\<close>, and changes no other partition.
\<close>

lemma send_message_routes:
  assumes "reachable b" and "topics b name = Some t"
    and "ky = Some k \<and> k \<noteq> [] \<or> (ky = None \<or> ky = Some []) \<and> msg = k"
    and "send_message b now name msg ky = Inr (ret, b')"
  shows "\<exists>key_bytes p. encode_utf8 k = Inr key_bytes \<and>
           p = sha1_int key_bytes mod num_partitions t \<and>
           0 \<le> p \<and> p < num_partitions t \<and>
           (\<exists>t' records. topics b' name = Some t' \<and> partitions t p = Some records \<and>
              partitions t' p = Some (records @
                [(last (keys_or records) + 1,
                  \<lparr>timestamp = now, key = key_bytes, message = msg\<rparr>)]) \<and>
              (\<forall>q. q \<noteq> p \<longrightarrow> partitions t' q = partitions t q))"
proof -
  from assms(3) have rk: "key_or ky msg = k" by auto
  from assms(4) obtain t0 key_bytes records where t0: "topics b name = Some t0"
    and enc: "encode_utf8 (key_or ky msg) = Inr key_bytes"
    and p0: "partitions t0 (sha1_int key_bytes mod num_partitions t0) = Some records"
    and b': "b' = b\<lparr>topics := (topics b)(name \<mapsto>
           t0\<lparr>partitions := (partitions t0)(sha1_int key_bytes mod num_partitions t0 \<mapsto>
             dict_set (last (keys_or records) + 1)
               \<lparr>timestamp = now, key = key_bytes, message = msg\<rparr> records)\<rparr>)\<rparr>"
    by (rule send_message_Inr)
  from t0 assms(2) have [simp]: "t0 = t" by simp
  let ?p = "sha1_int key_bytes mod num_partitions t"
  from p0 have p: "partitions t ?p = Some records" by simp
  with reachable_range [OF assms(1,2), of ?p] have range: "0 \<le> ?p \<and> ?p < num_partitions t"
    by simp
  have srt: "sorted_wrt (<) (map fst records)"
    using assms(1,2) p by (rule reachable_sorted)
  have "dict_set (last (keys_or records) + 1)
          \<lparr>timestamp = now, key = key_bytes, message = msg\<rparr> records
      = records @ [(last (keys_or records) + 1,
          \<lparr>timestamp = now, key = key_bytes, message = msg\<rparr>)]"
    by (rule dict_set_fresh) (rule next_offset_fresh [OF srt])
  with b' rk enc p range show ?thesis
    by simp
qed

text \<open>Stage 02 computes the partition by the same expression.\<close>

lemma send_message2_routes:
  assumes "topics2 b name = Some t" and "0 < num_partitions2 t"
    and "send_message2 b name msg ky = Inr b'"
  shows "\<exists>key_bytes p. encode_utf8 (key_or ky msg) = Inr key_bytes \<and>
           p = sha1_int key_bytes mod num_partitions2 t \<and>
           0 \<le> p \<and> p < num_partitions2 t \<and>
           (\<exists>t' msgs. topics2 b' name = Some t' \<and> partitions2 t p = Some msgs \<and>
              partitions2 t' p = Some (msgs @ [msg]) \<and>
              (\<forall>q. q \<noteq> p \<longrightarrow> partitions2 t' q = partitions2 t q))"
  using assms
  by (auto simp: send_message2_def Let_def split: option.splits if_splits sum.splits)

section \<open>The count as last offset in stage 01 and stage 02\<close>

lemma list_index_length: "list_index xs (int (length xs)) = None"
  by (simp add: list_index_def Let_def)

lemma list_index_snoc: "list_index (xs @ [x]) (int (length xs)) = Some x"
  by (simp add: list_index_def Let_def)

lemma get_next_message1_cursor:
  "get_next_message1 b c = Inr (msg, c') \<Longrightarrow> offset1 c \<le> offset1 c'"
  by (auto simp: get_next_message1_def split: sum.splits if_splits)

lemma run1_cursor:
  "run1 calls b c = Inr (b'', c'', trace)
    \<Longrightarrow> offset1 c \<le> offset1 c'' \<and> (\<forall>e \<in> set trace. offset1 c \<le> fst e)"
proof (induction calls b c arbitrary: b'' c'' trace rule: run1.induct)
  case (1 b c)
  then show ?case by simp
next
  case (2 name calls b c)
  then show ?case by simp
next
  case (3 name msg calls b c)
  then show ?case by (auto split: sum.splits)
next
  case (4 calls b c)
  from "4.prems" obtain msg c' tr where poll: "get_next_message1 b c = Inr (msg, c')"
    and rest: "run1 calls b c' = Inr (b'', c'', tr)"
    and trace: "trace = (offset1 c, msg) # tr"
    by (auto split: sum.splits prod.splits)
  from "4.IH" [OF poll refl rest] have "offset1 c' \<le> offset1 c''"
    and "\<forall>e \<in> set tr. offset1 c' \<le> fst e" by simp_all
  with get_next_message1_cursor [OF poll] trace show ?case by fastforce
qed

lemma get_next_message2_cursor:
  "get_next_message2 b c = Inr (msg, c') \<Longrightarrow> offset2 c \<le> offset2 c'"
  by (auto simp: get_next_message2_def split: sum.splits if_splits)

lemma run2_cursor:
  "run2 calls b c = Inr (b'', c'', trace)
    \<Longrightarrow> offset2 c \<le> offset2 c'' \<and> (\<forall>e \<in> set trace. offset2 c \<le> fst e)"
proof (induction calls b c arbitrary: b'' c'' trace rule: run2.induct)
  case (1 b c)
  then show ?case by simp
next
  case (2 name n calls b c)
  then show ?case by simp
next
  case (3 name msg k calls b c)
  then show ?case by (auto split: sum.splits)
next
  case (4 calls b c)
  from "4.prems" obtain msg c' tr where poll: "get_next_message2 b c = Inr (msg, c')"
    and rest: "run2 calls b c' = Inr (b'', c'', tr)"
    and trace: "trace = (offset2 c, msg) # tr"
    by (auto split: sum.splits prod.splits)
  from "4.IH" [OF poll refl rest] have "offset2 c' \<le> offset2 c''"
    and "\<forall>e \<in> set tr. offset2 c' \<le> fst e" by simp_all
  with get_next_message2_cursor [OF poll] trace show ?case by fastforce
qed

text \<open>
  Claim C9 (the count as last offset). In stage 01, \<^verbatim>\<open>get_last_offset\<close> is the number of
  stored messages. A consumer whose cursor equals that number polls: the read one past the
  last index gives \<^verbatim>\<open>None\<close>, and the cursor is advanced all the same. A message sent
  afterwards is stored at the offset the cursor has just left; whatever calls follow
  (creations of topics, sends, polls of this consumer), every poll starts from a cursor
  above that offset and the cursor stays above it, so the message is never read. Stage 02
  does the same for each partition: the count of the partition, the poll one past its last
  index, a message routed to the partition stored at the offset the cursor has left, and no
  later poll from that offset.
\<close>

theorem count_as_last_offset_skips:
  assumes "topics1 b (topic_name1 c) = Some msgs"
    and "offset1 c = int (length msgs)"
  shows "get_last_offset1 b (topic_name1 c) = Inr (int (length msgs)) \<and>
         read_message1 b (topic_name1 c) (offset1 c) = None \<and>
         get_next_message1 b c = Inr (None, c\<lparr>offset1 := int (length msgs) + 1\<rparr>) \<and>
         (\<exists>b'. send_message1 b (topic_name1 c) m = Inr b' \<and>
            read_message1 b' (topic_name1 c) (int (length msgs)) = Some m \<and>
            (\<forall>calls b'' c'' trace.
               run1 calls b' (c\<lparr>offset1 := int (length msgs) + 1\<rparr>) = Inr (b'', c'', trace)
               \<longrightarrow> int (length msgs) < offset1 c'' \<and>
                   (\<forall>e \<in> set trace. int (length msgs) < fst e))) \<and>
         (topics2 b2 (topic2 c2) = Some t2 \<and> partitions2 t2 (partition_idx2 c2) = Some msgs2 \<and>
          offset2 c2 = int (length msgs2) \<and> encode_utf8 (key_or k2 m2) = Inr key_bytes \<and>
          num_partitions2 t2 \<noteq> 0 \<and>
          sha1_int key_bytes mod num_partitions2 t2 = partition_idx2 c2 \<longrightarrow>
            get_last_offset2 b2 (topic2 c2) (partition_idx2 c2) = Inr (int (length msgs2)) \<and>
            get_next_message2 b2 c2 = Inr (None, c2\<lparr>offset2 := int (length msgs2) + 1\<rparr>) \<and>
            (\<exists>b2'. send_message2 b2 (topic2 c2) m2 k2 = Inr b2' \<and>
               read_message2 b2' (topic2 c2) (partition_idx2 c2) (int (length msgs2))
                 = Inr (Some m2) \<and>
               (\<forall>calls b'' c'' trace.
                  run2 calls b2' (c2\<lparr>offset2 := int (length msgs2) + 1\<rparr>)
                    = Inr (b'', c'', trace)
                  \<longrightarrow> int (length msgs2) < offset2 c'' \<and>
                      (\<forall>e \<in> set trace. int (length msgs2) < fst e))))"
proof -
  have last: "get_last_offset1 b (topic_name1 c) = Inr (int (length msgs))"
    using assms(1) by (simp add: get_last_offset1_def)
  have read: "read_message1 b (topic_name1 c) (offset1 c) = None"
    using assms by (simp add: read_message1_def list_index_length)
  have poll: "get_next_message1 b c = Inr (None, c\<lparr>offset1 := int (length msgs) + 1\<rparr>)"
    using last read assms(2) by (simp add: get_next_message1_def)
  let ?b' = "b\<lparr>topics1 := (topics1 b)(topic_name1 c \<mapsto> msgs @ [m])\<rparr>"
  have send: "send_message1 b (topic_name1 c) m = Inr ?b'"
    using assms(1) by (simp add: send_message1_def)
  have stored: "read_message1 ?b' (topic_name1 c) (int (length msgs)) = Some m"
    by (simp add: read_message1_def list_index_snoc)
  have skipped: "int (length msgs) < offset1 c'' \<and> (\<forall>e \<in> set trace. int (length msgs) < fst e)"
    if "run1 calls ?b' (c\<lparr>offset1 := int (length msgs) + 1\<rparr>) = Inr (b'', c'', trace)"
    for calls b'' c'' trace
    using run1_cursor [OF that] by fastforce
  have stage2: "get_last_offset2 b2 (topic2 c2) (partition_idx2 c2) = Inr (int (length msgs2)) \<and>
            get_next_message2 b2 c2 = Inr (None, c2\<lparr>offset2 := int (length msgs2) + 1\<rparr>) \<and>
            (\<exists>b2'. send_message2 b2 (topic2 c2) m2 k2 = Inr b2' \<and>
               read_message2 b2' (topic2 c2) (partition_idx2 c2) (int (length msgs2))
                 = Inr (Some m2) \<and>
               (\<forall>calls b'' c'' trace.
                  run2 calls b2' (c2\<lparr>offset2 := int (length msgs2) + 1\<rparr>)
                    = Inr (b'', c'', trace)
                  \<longrightarrow> int (length msgs2) < offset2 c'' \<and>
                      (\<forall>e \<in> set trace. int (length msgs2) < fst e)))"
    if t2: "topics2 b2 (topic2 c2) = Some t2"
      and p2: "partitions2 t2 (partition_idx2 c2) = Some msgs2"
      and off2: "offset2 c2 = int (length msgs2)"
      and enc2: "encode_utf8 (key_or k2 m2) = Inr key_bytes"
      and n2: "num_partitions2 t2 \<noteq> 0"
      and idx2: "sha1_int key_bytes mod num_partitions2 t2 = partition_idx2 c2"
  proof -
    let ?b2' = "b2\<lparr>topics2 := (topics2 b2)(topic2 c2 \<mapsto>
      t2\<lparr>partitions2 := (partitions2 t2)(partition_idx2 c2 \<mapsto> msgs2 @ [m2])\<rparr>)\<rparr>"
    have last2: "get_last_offset2 b2 (topic2 c2) (partition_idx2 c2) = Inr (int (length msgs2))"
      using t2 p2 by (simp add: get_last_offset2_def)
    have poll2: "get_next_message2 b2 c2 = Inr (None, c2\<lparr>offset2 := int (length msgs2) + 1\<rparr>)"
      using t2 p2 off2
      by (simp add: get_last_offset2_def get_next_message2_def read_message2_def
          list_index_length)
    have send2: "send_message2 b2 (topic2 c2) m2 k2 = Inr ?b2'"
      using t2 p2 enc2 n2 idx2 by (simp add: send_message2_def Let_def)
    have stored2: "read_message2 ?b2' (topic2 c2) (partition_idx2 c2) (int (length msgs2))
        = Inr (Some m2)"
      by (simp add: read_message2_def list_index_snoc)
    have skipped2: "int (length msgs2) < offset2 c'' \<and>
        (\<forall>e \<in> set trace. int (length msgs2) < fst e)"
      if "run2 calls ?b2' (c2\<lparr>offset2 := int (length msgs2) + 1\<rparr>) = Inr (b'', c'', trace)"
      for calls b'' c'' trace
      using run2_cursor [OF that] by fastforce
    from send2 stored2 skipped2 have "\<exists>b2'. send_message2 b2 (topic2 c2) m2 k2 = Inr b2' \<and>
               read_message2 b2' (topic2 c2) (partition_idx2 c2) (int (length msgs2))
                 = Inr (Some m2) \<and>
               (\<forall>calls b'' c'' trace.
                  run2 calls b2' (c2\<lparr>offset2 := int (length msgs2) + 1\<rparr>)
                    = Inr (b'', c'', trace)
                  \<longrightarrow> int (length msgs2) < offset2 c'' \<and>
                      (\<forall>e \<in> set trace. int (length msgs2) < fst e))"
      by blast
    with last2 poll2 show ?thesis by blast
  qed
  from send stored skipped have "\<exists>b'. send_message1 b (topic_name1 c) m = Inr b' \<and>
            read_message1 b' (topic_name1 c) (int (length msgs)) = Some m \<and>
            (\<forall>calls b'' c'' trace.
               run1 calls b' (c\<lparr>offset1 := int (length msgs) + 1\<rparr>) = Inr (b'', c'', trace)
               \<longrightarrow> int (length msgs) < offset1 c'' \<and>
                   (\<forall>e \<in> set trace. int (length msgs) < fst e))"
    by blast
  with last read poll stage2 show ?thesis
    by blast
qed

theorem count_as_last_offset_skips_witness:
  "send_message1 (create_topic1 Broker1_init ''Michael'') ''Michael'' (str_of ''hello'')
     = Inr \<lparr>topics1 = [''Michael'' \<mapsto> [str_of ''hello'']]\<rparr> \<and>
   get_last_offset1 \<lparr>topics1 = [''Michael'' \<mapsto> [str_of ''hello'']]\<rparr> ''Michael'' = Inr 1 \<and>
   get_next_message1 \<lparr>topics1 = [''Michael'' \<mapsto> [str_of ''hello'']]\<rparr>
       \<lparr>topic_name1 = ''Michael'', offset1 = 1\<rparr>
     = Inr (None, \<lparr>topic_name1 = ''Michael'', offset1 = 2\<rparr>) \<and>
   read_message1 \<lparr>topics1 = [''Michael'' \<mapsto> [str_of ''hello'', str_of ''bye'']]\<rparr>
       ''Michael'' 1 = Some (str_of ''bye'') \<and>
   run1 [Poll1, Send1 ''Michael'' (str_of ''again''), Poll1]
       \<lparr>topics1 = [''Michael'' \<mapsto> [str_of ''hello'', str_of ''bye'']]\<rparr>
       \<lparr>topic_name1 = ''Michael'', offset1 = 2\<rparr>
     = Inr (\<lparr>topics1 = [''Michael'' \<mapsto> [str_of ''hello'', str_of ''bye'', str_of ''again'']]\<rparr>,
            \<lparr>topic_name1 = ''Michael'', offset1 = 4\<rparr>, [(2, None), (3, None)]) \<and>
   get_next_message2 (create_topic2 Broker2_init ''sales'' 1)
       \<lparr>topic2 = ''sales'', partition_idx2 = 0, offset2 = 0\<rparr>
     = Inr (None, \<lparr>topic2 = ''sales'', partition_idx2 = 0, offset2 = 1\<rparr>) \<and>
   (\<exists>b2'. send_message2 (create_topic2 Broker2_init ''sales'' 1) ''sales'' (str_of ''a'') None
        = Inr b2' \<and>
      read_message2 b2' ''sales'' 0 0 = Inr (Some (str_of ''a'')) \<and>
      (\<exists>b2'' trace. run2 [Poll2, Send2 ''sales'' (str_of ''abc'') None, Poll2] b2'
          \<lparr>topic2 = ''sales'', partition_idx2 = 0, offset2 = 1\<rparr>
        = Inr (b2'', \<lparr>topic2 = ''sales'', partition_idx2 = 0, offset2 = 3\<rparr>, trace) \<and>
        trace = [(1, None), (2, None)]))"
proof -
  let ?b = "\<lparr>topics1 = [''Michael'' \<mapsto> [str_of ''hello'']]\<rparr>"
  let ?c = "\<lparr>topic_name1 = ''Michael'', offset1 = 1\<rparr>"
  let ?b2 = "create_topic2 Broker2_init ''sales'' 1"
  let ?c2 = "\<lparr>topic2 = ''sales'', partition_idx2 = 0, offset2 = 0\<rparr>"
  let ?t2 = "\<lparr>num_partitions2 = 1,
    partitions2 = (\<lambda>i. if 0 \<le> i \<and> i < (1::int) then Some ([] :: str list) else None)\<rparr>"
  have t: "topics1 ?b (topic_name1 ?c) = Some [str_of ''hello'']"
    by simp
  have off: "offset1 ?c = int (length [str_of ''hello''])"
    by simp
  have st2: "topics2 ?b2 (topic2 ?c2) = Some ?t2 \<and> partitions2 ?t2 (partition_idx2 ?c2) = Some [] \<and>
      offset2 ?c2 = int (length ([] :: str list)) \<and>
      encode_utf8 (key_or None (str_of ''a'')) = Inr [97] \<and> num_partitions2 ?t2 \<noteq> 0 \<and>
      sha1_int [97] mod num_partitions2 ?t2 = partition_idx2 ?c2"
    by (simp add: create_topic2_def encode_a)
  have created: "send_message1 (create_topic1 Broker1_init ''Michael'') ''Michael'' (str_of ''hello'')
      = Inr ?b"
    by (simp add: send_message1_def create_topic1_def Broker1_init_def)
  have run: "run1 [Poll1, Send1 ''Michael'' (str_of ''again''), Poll1]
       \<lparr>topics1 = [''Michael'' \<mapsto> [str_of ''hello'', str_of ''bye'']]\<rparr>
       \<lparr>topic_name1 = ''Michael'', offset1 = 2\<rparr>
     = Inr (\<lparr>topics1 = [''Michael'' \<mapsto> [str_of ''hello'', str_of ''bye'', str_of ''again'']]\<rparr>,
            \<lparr>topic_name1 = ''Michael'', offset1 = 4\<rparr>, [(2, None), (3, None)])"
    by (simp add: get_next_message1_def get_last_offset1_def read_message1_def send_message1_def
        list_index_def)
  have run2: "\<exists>b2'. send_message2 ?b2 ''sales'' (str_of ''a'') None = Inr b2' \<and>
      read_message2 b2' ''sales'' 0 0 = Inr (Some (str_of ''a'')) \<and>
      (\<exists>b2'' trace. run2 [Poll2, Send2 ''sales'' (str_of ''abc'') None, Poll2] b2'
          \<lparr>topic2 = ''sales'', partition_idx2 = 0, offset2 = 1\<rparr>
        = Inr (b2'', \<lparr>topic2 = ''sales'', partition_idx2 = 0, offset2 = 3\<rparr>, trace) \<and>
        trace = [(1, None), (2, None)])"
    by (simp add: send_message2_def create_topic2_def encode_a encode_abc Let_def
        get_next_message2_def get_last_offset2_def read_message2_def list_index_def)
  from count_as_last_offset_skips [OF t off, of "str_of ''bye''" ?b2 ?c2 ?t2 "[]" None
      "str_of ''a''" "[97]"] st2
  show ?thesis
    using created run run2 by (simp add: send_message1_def)
qed

end
